theory Spec2Isabelle
  imports Complex_Main "HOL-Library.Sublist" "HOL-Library.AList"
begin

section \<open>JavaScript strings\<close>

text \<open>
  A JavaScript string is a sequence of UTF-16 code units. A code unit is modelled as a
  natural number (the naturals below 65536 are the code units), a string as a list.
  \<open>str\<close> turns an ASCII literal into such a string; the Polish letters and the other
  non-ASCII characters of the source are written as their code units.
\<close>

type_synonym code_unit = nat
type_synonym jsstring = "code_unit list"

definition str :: "string \<Rightarrow> jsstring" where
  "str cs = map of_char cs"

text \<open>
  \<open>String.prototype.toLowerCase\<close> is the lower-casing of the engine's Unicode tables,
  on code points. The model does not fix it: every definition that calls it takes it as
  its first argument, named \<open>toLowerCase\<close>, and in every statement below
  \<open>toLowerCase\<close> is a variable, so that the statement holds of whatever function is
  put in its place.

  \<open>lower_latin\<close> is that lower-casing written out for the strings of Basic Latin,
  Latin-1 Supplement and Latin Extended-A (U+0000 to U+017F, which holds every letter of
  the category table), where it maps each code unit by itself; U+0130 is the one
  character of the range whose lower case is two code units. The examples are evaluated
  with it, on texts of that range. Above U+017F \<open>lower_latin\<close> changes nothing and is
  not the engine's function.
\<close>

definition lower_unit :: "code_unit \<Rightarrow> jsstring" where
  "lower_unit c =
     (if 0x41 \<le> c \<and> c \<le> 0x5A then [c + 0x20]
      else if 0xC0 \<le> c \<and> c \<le> 0xDE \<and> c \<noteq> 0xD7 then [c + 0x20]
      else if c = 0x130 then [0x69, 0x307]
      else if c = 0x178 then [0xFF]
      else if (0x100 \<le> c \<and> c \<le> 0x12F \<or> 0x132 \<le> c \<and> c \<le> 0x137 \<or> 0x14A \<le> c \<and> c \<le> 0x177)
              \<and> even c then [c + 1]
      else if (0x139 \<le> c \<and> c \<le> 0x148 \<or> 0x179 \<le> c \<and> c \<le> 0x17E) \<and> odd c then [c + 1]
      else [c])"

definition lower_latin :: "jsstring \<Rightarrow> jsstring" where
  "lower_latin s = concat (map lower_unit s)"



text \<open>
  The canonicalisation a regular expression with the \<open>i\<close> flag (and without \<open>u\<close>)
  applies to both the pattern character and the input character: the upper case of the
  code unit when that is a single code unit, except that a non-ASCII code unit is never
  mapped into ASCII. It is written out for U+0000 to U+017F; a code unit above is left
  as it is, and none of those has the canonical form of a character of the table's
  patterns, so that the patterns match there as they do in the engine.
\<close>

definition canonicalize :: "code_unit \<Rightarrow> code_unit" where
  "canonicalize c =
     (if 0x61 \<le> c \<and> c \<le> 0x7A then c - 0x20
      else if c = 0xB5 then 0x39C
      else if 0xE0 \<le> c \<and> c \<le> 0xFE \<and> c \<noteq> 0xF7 then c - 0x20
      else if c = 0xFF then 0x178
      else if (0x100 \<le> c \<and> c \<le> 0x12F \<or> 0x132 \<le> c \<and> c \<le> 0x137 \<or> 0x14A \<le> c \<and> c \<le> 0x177)
              \<and> odd c then c - 1
      else if (0x139 \<le> c \<and> c \<le> 0x148 \<or> 0x179 \<le> c \<and> c \<le> 0x17E) \<and> even c then c - 1
      else c)"

text \<open>White space and line terminators of ECMAScript: what \<open>trim\<close> strips and \<open>\s\<close> matches.\<close>

definition is_line_terminator :: "code_unit \<Rightarrow> bool" where
  "is_line_terminator c = (c = 0xA \<or> c = 0xD \<or> c = 0x2028 \<or> c = 0x2029)"

definition is_whitespace :: "code_unit \<Rightarrow> bool" where
  "is_whitespace c =
     (c = 0x9 \<or> c = 0xB \<or> c = 0xC \<or> c = 0x20 \<or> c = 0xA0 \<or> c = 0x1680
      \<or> (0x2000 \<le> c \<and> c \<le> 0x200A) \<or> c = 0x202F \<or> c = 0x205F \<or> c = 0x3000 \<or> c = 0xFEFF
      \<or> is_line_terminator c)"

definition is_digit :: "code_unit \<Rightarrow> bool" where
  "is_digit c = (0x30 \<le> c \<and> c \<le> 0x39)"

definition is_word_char :: "code_unit \<Rightarrow> bool" where
  "is_word_char c =
     ((0x61 \<le> c \<and> c \<le> 0x7A) \<or> (0x41 \<le> c \<and> c \<le> 0x5A) \<or> is_digit c \<or> c = 0x5F)"

definition trim :: "jsstring \<Rightarrow> jsstring" where
  "trim s = rev (dropWhile is_whitespace (rev (dropWhile is_whitespace s)))"

text \<open>\<open>haystack.includes(needle)\<close>: the needle starts at some index of the haystack.\<close>

fun includes_str :: "jsstring \<Rightarrow> jsstring \<Rightarrow> bool" where
  "includes_str [] needle = (needle = [])"
| "includes_str (c # cs) needle = (prefix needle (c # cs) \<or> includes_str cs needle)"

section \<open>Regular expressions\<close>

text \<open>
  The fragment of the regular-expression language that the source's literals use:
  single characters and character classes (with the escapes \<open>\d\<close>, \<open>\w\<close>, \<open>\s\<close>,
  \<open>\S\<close>), the assertions \<open>^\<close> and \<open>$\<close>, sequence, alternation and greedy
  quantifiers \<open>{min,max}\<close>. \<open>Repeat r min None\<close> is \<open>r{min,}\<close>.
\<close>

datatype atom = Lit code_unit | Digit | WordChar | Space | NonSpace

datatype regex =
    Chars "atom list"
  | LineStart
  | LineEnd
  | Empty
  | Seq regex regex
  | Alt regex regex
  | Repeat regex nat "nat option"

abbreviation Star :: "regex \<Rightarrow> regex" where
  "Star r \<equiv> Repeat r 0 None"

abbreviation OneOrMore :: "regex \<Rightarrow> regex" where
  "OneOrMore r \<equiv> Repeat r (Suc 0) None"

abbreviation Optional :: "regex \<Rightarrow> regex" where
  "Optional r \<equiv> Repeat r 0 (Some (Suc 0))"

abbreviation Single :: "code_unit \<Rightarrow> regex" where
  "Single c \<equiv> Chars [Lit c]"

fun literal :: "jsstring \<Rightarrow> regex" where
  "literal [] = Empty"
| "literal [c] = Single c"
| "literal (c # cs) = Seq (Single c) (literal cs)"

fun alternatives :: "regex list \<Rightarrow> regex" where
  "alternatives [] = Empty"
| "alternatives [r] = r"
| "alternatives (r # rs) = Alt r (alternatives rs)"

record regexp =
  body :: regex
  ignoreCase :: bool
  multiline :: bool

text \<open>
  Under the \<open>i\<close> flag a literal matches a code unit with the same canonical form. The
  class escapes hold the same code units with and without the flag (no code unit outside
  \<open>\d\<close>, \<open>\w\<close>, \<open>\s\<close> has the canonical form of one inside, when \<open>u\<close> is off).
\<close>

fun atom_matches :: "bool \<Rightarrow> code_unit \<Rightarrow> atom \<Rightarrow> bool" where
  "atom_matches ic c (Lit a) = (if ic then canonicalize a = canonicalize c else a = c)"
| "atom_matches ic c Digit = is_digit c"
| "atom_matches ic c WordChar = is_word_char c"
| "atom_matches ic c Space = is_whitespace c"
| "atom_matches ic c NonSpace = (\<not> is_whitespace c)"

text \<open>
  A position in the input is the code unit before it (\<open>None\<close> at index 0) and the rest of
  the input from it on. \<open>ends ic ml r x\<close> lists the positions at which a match of \<open>r\<close>
  that starts at \<open>x\<close> can end, in the order in which the backtracking matcher of
  ECMAScript tries them: the first is the match \<open>exec\<close> reports. An iteration of a
  quantifier beyond its minimum that consumes nothing is rejected, as in
  \<open>RepeatMatcher\<close>.
\<close>

type_synonym position = "code_unit option \<times> jsstring"

fun rsize :: "regex \<Rightarrow> nat" where
  "rsize (Seq r1 r2) = rsize r1 + rsize r2 + 1"
| "rsize (Alt r1 r2) = rsize r1 + rsize r2 + 1"
| "rsize (Repeat r m mx) = rsize r + m + (case mx of None \<Rightarrow> 0 | Some k \<Rightarrow> k) + 1"
| "rsize _ = 1"

fun decr :: "nat option \<Rightarrow> nat option" where
  "decr None = None"
| "decr (Some k) = Some (k - 1)"

function (sequential) ends :: "bool \<Rightarrow> bool \<Rightarrow> regex \<Rightarrow> position \<Rightarrow> position list" where
  "ends ic ml (Chars as) (p, []) = []"
| "ends ic ml (Chars as) (p, c # cs) =
     (if list_ex (atom_matches ic c) as then [(Some c, cs)] else [])"
| "ends ic ml LineStart (p, s) =
     (case p of None \<Rightarrow> [(p, s)]
      | Some c \<Rightarrow> if ml \<and> is_line_terminator c then [(p, s)] else [])"
| "ends ic ml LineEnd (p, s) =
     (case s of [] \<Rightarrow> [(p, s)]
      | c # cs \<Rightarrow> if ml \<and> is_line_terminator c then [(p, s)] else [])"
| "ends ic ml Empty x = [x]"
| "ends ic ml (Seq r1 r2) x = concat (map (ends ic ml r2) (ends ic ml r1 x))"
| "ends ic ml (Alt r1 r2) x = ends ic ml r1 x @ ends ic ml r2 x"
| "ends ic ml (Repeat r m mx) (p, s) =
     (if mx = Some 0 then [(p, s)]
      else if 0 < m
      then concat (map (ends ic ml (Repeat r (m - 1) (decr mx))) (ends ic ml r (p, s)))
      else concat (map (ends ic ml (Repeat r 0 (decr mx)))
                       (filter (\<lambda>(p', s'). length s' < length s) (ends ic ml r (p, s))))
           @ [(p, s)])"
  by pat_completeness auto
termination
  by (relation "inv_image (less_than <*lex*> less_than)
                  (\<lambda>(ic, ml, r, p, s). (rsize r, length s))")
     (auto split: option.splits)

text \<open>
  \<open>regexp.test(s)\<close> for a regular expression without the \<open>g\<close> and \<open>y\<close> flags: the
  search starts at index 0 whatever happened before, and tries every start index up to
  the end of the input.
\<close>

fun search :: "bool \<Rightarrow> bool \<Rightarrow> regex \<Rightarrow> code_unit option \<Rightarrow> jsstring \<Rightarrow> bool" where
  "search ic ml r p [] = (ends ic ml r (p, []) \<noteq> [])"
| "search ic ml r p (c # cs) = (ends ic ml r (p, c # cs) \<noteq> [] \<or> search ic ml r (Some c) cs)"

definition test :: "regexp \<Rightarrow> jsstring \<Rightarrow> bool" where
  "test re s = search (ignoreCase re) (multiline re) (body re) None s"

section \<open>JavaScript values, errors and objects\<close>

text \<open>
  The values a caller can pass. The payload of a number plays no part (the code only asks
  whether the value is a string). \<open>JStringObject s\<close> is the object \<open>new String(s)\<close>:
  its \<open>typeof\<close> is \<open>'object'\<close>, and it has the methods of a string. \<open>JObject\<close>
  stands for an object that has neither a \<open>toLowerCase\<close> nor a \<open>match\<close> property,
  its own or inherited: a plain object, an array, a function. For \<open>categorize\<close>, which
  only asks for the \<open>typeof\<close> of its argument, it stands for any other object.

  An object that carries a \<open>toLowerCase\<close> or a \<open>match\<close> method written by the caller
  has no value here: such a call runs the caller's code, \<open>addKeyword\<close> pushes whatever
  that code returns, and nothing below is stated of it.
\<close>

datatype jsval =
    JUndefined | JNull | JBoolean bool | JNumber int | JString jsstring
  | JStringObject jsstring | JObject

datatype js_error = TypeError

text \<open>
  An object literal is kept as the list of its own properties in the order
  \<open>Object.entries\<close> yields them, which is the order of insertion for keys that are not
  array indices (no key of the category table is one). Reading a property that is not the
  object's own falls through to \<open>Object.prototype\<close>, whose properties are functions
  (and, for \<open>__proto__\<close>, an object): truthy values without a \<open>keywords\<close> property.
\<close>

definition object_prototype_names :: "jsstring list" where
  "object_prototype_names =
     [str ''constructor'', str ''__defineGetter__'', str ''__defineSetter__'',
      str ''hasOwnProperty'', str ''__lookupGetter__'', str ''__lookupSetter__'',
      str ''isPrototypeOf'', str ''propertyIsEnumerable'', str ''toString'', str ''valueOf'',
      str ''__proto__'', str ''toLocaleString'']"

datatype 'a property = Own 'a | Inherited | Absent

definition get_property :: "(jsstring \<times> 'a) list \<Rightarrow> jsstring \<Rightarrow> 'a property" where
  "get_property obj k =
     (case map_of obj k of
        Some v \<Rightarrow> Own v
      | None \<Rightarrow> if k \<in> set object_prototype_names then Inherited else Absent)"

section \<open>The category table\<close>

record category_data =
  icon :: jsstring
  "keywords" :: "jsstring list"
  patterns :: "regexp list"

type_synonym table = "(jsstring \<times> category_data) list"

abbreviation a_ogonek :: code_unit where "a_ogonek \<equiv> 0x105"
abbreviation c_acute :: code_unit where "c_acute \<equiv> 0x107"
abbreviation e_ogonek :: code_unit where "e_ogonek \<equiv> 0x119"
abbreviation l_stroke :: code_unit where "l_stroke \<equiv> 0x142"
abbreviation n_acute :: code_unit where "n_acute \<equiv> 0x144"
abbreviation o_acute :: code_unit where "o_acute \<equiv> 0xF3"
abbreviation s_acute :: code_unit where "s_acute \<equiv> 0x15B"
abbreviation z_acute :: code_unit where "z_acute \<equiv> 0x17A"
abbreviation z_dot :: code_unit where "z_dot \<equiv> 0x17C"

abbreviation ascii :: "char \<Rightarrow> code_unit" where
  "ascii c \<equiv> of_char c"

fun sequence :: "regex list \<Rightarrow> regex" where
  "sequence [] = Empty"
| "sequence [r] = r"
| "sequence (r # rs) = Seq r (sequence rs)"

definition rx :: "regex \<Rightarrow> regexp" where
  "rx r = \<lparr>body = r, ignoreCase = False, multiline = False\<rparr>"

definition rx_i :: "regex \<Rightarrow> regexp" where
  "rx_i r = \<lparr>body = r, ignoreCase = True, multiline = False\<rparr>"

definition rx_m :: "regex \<Rightarrow> regexp" where
  "rx_m r = \<lparr>body = r, ignoreCase = False, multiline = True\<rparr>"

abbreviation digit :: regex where
  "digit \<equiv> Chars [Digit]"

abbreviation word_class :: regex where
  "word_class \<equiv> Chars [WordChar]"

definition zadanie :: category_data where
  "zadanie = \<lparr>
    icon = [0x2705],
    keywords =
     [str ''zrobi'' @ [c_acute], str ''kupi'' @ [c_acute], str ''zadzwoni'' @ [c_acute],
      str ''wys'' @ [l_stroke] @ str ''a'' @ [c_acute], str ''sprawdzi'' @ [c_acute],
      str ''naprawi'' @ [c_acute], str ''um'' @ [o_acute] @ str ''wi'' @ [c_acute],
      str ''zap'' @ [l_stroke] @ str ''aci'' @ [c_acute], str ''odda'' @ [c_acute],
      str ''odebra'' @ [c_acute], str ''przygotowa'' @ [c_acute],
      str ''doko'' @ [n_acute] @ str ''czy'' @ [c_acute], str ''todo'', str ''task'',
      str ''must'', str ''trzeba'', str ''musz'' @ [e_ogonek],
      str ''nale'' @ [z_dot] @ str ''y'', str ''pami'' @ [e_ogonek] @ str ''taj''],
    patterns =
     [rx_m (sequence [LineStart, Chars [Lit (ascii CHR ''-''), Lit 0x2022, Lit (ascii CHR ''*'')],
                      Chars [Space]]),
      rx_m (sequence [LineStart, OneOrMore digit,
                      Chars [Lit (ascii CHR ''.''), Lit (ascii CHR '')'')], Chars [Space]]),
      rx_i (literal (str ''do zrobienia'')),
      rx_i (literal (str ''lista''))]\<rparr>"

definition pomysl :: category_data where
  "pomysl = \<lparr>
    icon = [0xD83D, 0xDCA1],
    keywords =
     [str ''pomys'' @ [l_stroke], str ''idea'', str ''mo'' @ [z_dot] @ str ''e'',
      str ''mo'' @ [z_dot] @ str ''na by'', str ''co je'' @ [s_acute] @ str ''li'',
      str ''a gdyby'', str ''warto by'', str ''fajnie by by'' @ [l_stroke] @ str ''o'',
      str ''koncept'', str ''innowacja'', str ''projekt''],
    patterns =
     [rx_i (sequence [LineStart, literal (str ''co ''),
                      alternatives [literal (str ''je'' @ [s_acute] @ str ''li''),
                                    literal (str ''gdyby'')]]),
      rx_i (sequence [LineStart, literal (str ''a ''),
                      alternatives [literal (str ''mo'' @ [z_dot] @ str ''e''),
                                    literal (str ''gdyby'')]]),
      rx (Single (ascii CHR ''!''))]\<rparr>"

definition pytanie :: category_data where
  "pytanie = \<lparr>
    icon = [0x2753],
    keywords =
     [str ''dlaczego'', str ''jak'', str ''kiedy'', str ''gdzie'', str ''kto'', str ''co'',
      str ''czy'', str ''kt'' @ [o_acute] @ str ''ry'', str ''ile'', str ''czemu'',
      str ''po co'', str ''sk'' @ [a_ogonek] @ str ''d''],
    patterns =
     [rx (sequence [Single (ascii CHR ''?''), LineEnd]),
      rx (sequence [Single (ascii CHR ''?''),
                    Star (Chars [Lit (ascii CHR ''.''), Lit (ascii CHR ''!''), Space]), LineEnd]),
      rx_i (sequence [LineStart,
                      alternatives [literal (str ''jak''), literal (str ''dlaczego''),
                                    literal (str ''kiedy''), literal (str ''gdzie''),
                                    literal (str ''kto''), literal (str ''co''),
                                    literal (str ''czy'')]])]\<rparr>"

definition praca :: category_data where
  "praca = \<lparr>
    icon = [0xD83D, 0xDCBC],
    keywords =
     [str ''spotkanie'', str ''meeting'', str ''deadline'', str ''projekt'', str ''klient'',
      str ''szef'', str ''zesp'' @ [o_acute, l_stroke], str ''prezentacja'', str ''raport'',
      str ''email'', str ''mail'', str ''firma'', str ''biuro'', str ''praca'',
      str ''zlecenie'', str ''kontrakt'', str ''umowa'', str ''faktura''],
    patterns =
     [rx (sequence [Single (ascii CHR ''@''), OneOrMore word_class]),
      rx_i (literal (str ''deadline'')),
      rx_i (literal (str ''ASAP''))]\<rparr>"

definition zakupy :: category_data where
  "zakupy = \<lparr>
    icon = [0xD83D, 0xDED2],
    keywords =
     [str ''kupi'' @ [c_acute], str ''sklep'', str ''zakupy'',
      str ''lista zakup'' @ [o_acute] @ str ''w'',
      str ''zam'' @ [o_acute] @ str ''wi'' @ [c_acute], str ''cena'', str ''promocja'',
      str ''rabat'', str ''allegro'', str ''amazon'', str ''olx''],
    patterns =
     [rx_i (sequence [OneOrMore digit, Star (Chars [Space]),
                      alternatives [literal (str ''z'' @ [l_stroke]), literal (str ''pln''),
                                    Single 0x20AC, Single (ascii CHR ''$'')]]),
      rx_i (literal (str ''kupi'' @ [c_acute]))]\<rparr>"

definition wydarzenie :: category_data where
  "wydarzenie = \<lparr>
    icon = [0xD83D, 0xDCC5],
    keywords =
     [str ''spotkanie'', str ''wizyta'', str ''urodziny'', str ''rocznica'', str ''impreza'',
      str ''koncert'', str ''wyjazd'', str ''lot'', str ''rezerwacja'', str ''termin'',
      str ''data''],
    patterns =
     [rx (sequence [Repeat digit 1 (Some 2),
                    Chars [Lit (ascii CHR ''.''), Lit (ascii CHR ''/''), Lit (ascii CHR ''-'')],
                    Repeat digit 1 (Some 2)]),
      rx (sequence [Single (ascii CHR ''o''), OneOrMore (Chars [Space]), Repeat digit 1 (Some 2),
                    Single (ascii CHR '':''), Repeat digit 2 (Some 2)]),
      rx_i (alternatives
             [literal (str ''poniedzia'' @ [l_stroke] @ str ''ek''), literal (str ''wtorek''),
              literal ([s_acute] @ str ''roda''), literal (str ''czwartek''),
              literal (str ''pi'' @ [a_ogonek] @ str ''tek''), literal (str ''sobota''),
              literal (str ''niedziela'')]),
      rx_i (alternatives
             [literal (str ''stycze'' @ [n_acute]), literal (str ''luty''),
              literal (str ''marzec''), literal (str ''kwiecie'' @ [n_acute]),
              literal (str ''maj''), literal (str ''czerwiec''), literal (str ''lipiec''),
              literal (str ''sierpie'' @ [n_acute]), literal (str ''wrzesie'' @ [n_acute]),
              literal (str ''pa'' @ [z_acute] @ str ''dziernik''), literal (str ''listopad''),
              literal (str ''grudzie'' @ [n_acute])])]\<rparr>"

definition notatka :: category_data where
  "notatka = \<lparr>
    icon = [0xD83D, 0xDCDD],
    keywords =
     [str ''notatka'', str ''zapami'' @ [e_ogonek] @ str ''ta'' @ [c_acute],
      str ''wa'' @ [z_dot] @ str ''ne'', str ''uwaga'', str ''info'', str ''informacja''],
    patterns = []\<rparr>"

definition inspiracja :: category_data where
  "inspiracja = \<lparr>
    icon = [0x2728],
    keywords =
     [str ''cytat'', str ''motywacja'', str ''inspiracja'', str ''marzenie'', str ''cel'',
      str ''sukces'', str ''motto'', [z_dot] @ str ''ycie'',
      str ''przysz'' @ [l_stroke] @ str ''o'' @ [s_acute, c_acute], str ''wizja''],
    patterns =
     [rx (sequence [LineStart, Chars [Lit 0x22, Lit 0x201E, Lit 0x22]]),
      rx (sequence [Chars [Lit 0x22, Lit 0x22], LineEnd])]\<rparr>"

definition kontakt :: category_data where
  "kontakt = \<lparr>
    icon = [0xD83D, 0xDC64],
    keywords =
     [str ''telefon'', str ''numer'', str ''adres'', str ''email'', str ''kontakt'',
      str ''osoba''],
    patterns =
     [rx (sequence [Repeat digit 3 (Some 3), Optional (Chars [Space, Lit (ascii CHR ''-'')]),
                    Repeat digit 3 (Some 3), Optional (Chars [Space, Lit (ascii CHR ''-'')]),
                    Repeat digit 3 (Some 3)]),
      rx (sequence [OneOrMore (Chars [NonSpace]), Single (ascii CHR ''@''),
                    OneOrMore (Chars [NonSpace]), Single (ascii CHR ''.''),
                    OneOrMore (Chars [NonSpace])])]\<rparr>"

definition finanse :: category_data where
  "finanse = \<lparr>
    icon = [0xD83D, 0xDCB0],
    keywords =
     [str ''pieni'' @ [a_ogonek] @ str ''dze'', str ''kasa'', str ''przelew'',
      str ''rachunek'', str ''op'' @ [l_stroke] @ str ''ata'', str ''rata'', str ''kredyt'',
      str ''oszcz'' @ [e_ogonek] @ str ''dno'' @ [s_acute] @ str ''ci'',
      str ''bud'' @ [z_dot] @ str ''et'', str ''wydatek'', str ''koszt'', str ''pensja''],
    patterns =
     [rx_i (sequence [OneOrMore digit, Star (Chars [Space]),
                      alternatives [literal (str ''z'' @ [l_stroke]), literal (str ''pln''),
                                    Single 0x20AC, Single (ascii CHR ''$''),
                                    literal (str ''tys'')]])]\<rparr>"

definition zdrowie :: category_data where
  "zdrowie = \<lparr>
    icon = [0xD83C, 0xDFE5],
    keywords =
     [str ''lekarz'', str ''wizyta'', str ''lek'', str ''tabletki'', str ''recepta'',
      str ''badanie'', str ''dentysta'', str ''szpital'', str ''zdrowie'', str ''dieta'',
      str ''trening'', str ''si'' @ [l_stroke] @ str ''ownia''],
    patterns = []\<rparr>"

text \<open>\<open>Categorizer.categories\<close> as the source file creates it.\<close>

definition categories :: table where
  "categories =
     [(str ''zadanie'', zadanie), (str ''pomys'' @ [l_stroke], pomysl),
      (str ''pytanie'', pytanie), (str ''praca'', praca), (str ''zakupy'', zakupy),
      (str ''wydarzenie'', wydarzenie), (str ''notatka'', notatka),
      (str ''inspiracja'', inspiracja), (str ''kontakt'', kontakt),
      (str ''finanse'', finanse), (str ''zdrowie'', zdrowie)]"

section \<open>The Categorizer\<close>

subsection \<open>\<open>categorize\<close>\<close>

text \<open>
  The object \<open>{category, icon, confidence}\<close> that \<open>categorize\<close> returns. Its
  \<open>icon\<close> is the field \<open>result_icon\<close> here (\<open>icon\<close> names the field of a table
  entry). The confidence is the exact quotient, where JavaScript rounds it to a double.
\<close>

record categorization =
  category :: jsstring
  result_icon :: jsval
  confidence :: rat

text \<open>The body of the outer loop: the score of one category.\<close>

definition keyword_step ::
  "(jsstring \<Rightarrow> jsstring) \<Rightarrow> jsstring \<Rightarrow> jsstring \<Rightarrow> nat \<Rightarrow> nat" where
  "keyword_step toLowerCase normalizedText keyword score =
     (if includes_str normalizedText (toLowerCase keyword) then score + 2 else score)"

definition pattern_step :: "jsstring \<Rightarrow> regexp \<Rightarrow> nat \<Rightarrow> nat" where
  "pattern_step text pattern score = (if test pattern text then score + 3 else score)"

definition category_score ::
  "(jsstring \<Rightarrow> jsstring) \<Rightarrow> jsstring \<Rightarrow> jsstring \<Rightarrow> category_data \<Rightarrow> nat" where
  "category_score toLowerCase normalizedText text categoryData =
     fold (pattern_step text) (patterns categoryData)
       (fold (keyword_step toLowerCase normalizedText) (keywords categoryData) 0)"

text \<open>
  The first loop fills the object \<open>scores\<close>, one assignment per entry of the table. An
  assignment to a new key adds it behind the others, one to a key that is there keeps its
  place (no key of the table is an array index or \<open>__proto__\<close>).
\<close>

definition compute_scores ::
  "(jsstring \<Rightarrow> jsstring) \<Rightarrow> table \<Rightarrow> jsstring \<Rightarrow> jsstring \<Rightarrow> (jsstring \<times> nat) list" where
  "compute_scores toLowerCase t normalizedText text =
     fold (\<lambda>(categoryName, categoryData) scores.
             AList.update categoryName (category_score toLowerCase normalizedText text categoryData) scores)
          t []"

text \<open>The second loop: a strictly greater score replaces the best one so far.\<close>

fun best_step :: "jsstring \<times> nat \<Rightarrow> jsstring \<times> nat \<Rightarrow> jsstring \<times> nat" where
  "best_step (category', score) (bestCategory, bestScore) =
     (if score > bestScore then (category', score) else (bestCategory, bestScore))"

definition select_best :: "(jsstring \<times> nat) list \<Rightarrow> jsstring \<times> nat" where
  "select_best scores = fold best_step scores (str ''notatka'', 0)"

definition fallback_result :: categorization where
  "fallback_result =
     \<lparr>category = str ''notatka'', result_icon = JString [0xD83D, 0xDCDD], confidence = 0\<rparr>"

definition categorize_text ::
  "(jsstring \<Rightarrow> jsstring) \<Rightarrow> table \<Rightarrow> jsstring \<Rightarrow> js_error + categorization" where
  "categorize_text toLowerCase t text =
     (let normalizedText = trim (toLowerCase text);
          scores = compute_scores toLowerCase t normalizedText text;
          (bestCategory, bestScore) = select_best scores;
          maxPossibleScore = 15;
          confidence = min (of_nat bestScore / maxPossibleScore) 1
      in case get_property t bestCategory of
           Own categoryData \<Rightarrow>
             Inr \<lparr>category = bestCategory, result_icon = JString (icon categoryData),
                  confidence = confidence\<rparr>
         | Inherited \<Rightarrow>
             Inr \<lparr>category = bestCategory, result_icon = JUndefined, confidence = confidence\<rparr>
         | Absent \<Rightarrow> Inl TypeError)"

text \<open>
  The guard \<open>!text || typeof text !== 'string'\<close> holds for every value that is not a
  string, and among the strings for the empty one. Reading \<open>icon\<close> from the entry of
  the best category throws when the table has no such property at all.
\<close>

fun categorize ::
  "(jsstring \<Rightarrow> jsstring) \<Rightarrow> table \<Rightarrow> jsval \<Rightarrow> js_error + categorization" where
  "categorize toLowerCase t (JString text) =
     (if text = [] then Inr fallback_result else categorize_text toLowerCase t text)"
| "categorize toLowerCase t v = Inr fallback_result"

subsection \<open>\<open>getAllCategories\<close>\<close>

definition getAllCategories :: "table \<Rightarrow> (jsstring \<times> jsstring) list" where
  "getAllCategories t = map (\<lambda>(name, data). (name, icon data)) t"

subsection \<open>\<open>addKeyword\<close>\<close>

text \<open>
  The table is the state: the call returns the table it leaves behind. The category is
  the property key that the first argument stands for. When the guard
  reads an inherited property, the value is truthy, its \<open>keywords\<close> is
  \<open>undefined\<close> and reading \<open>push\<close> from that throws. When the category is the
  table's own, \<open>keyword.toLowerCase()\<close> throws for a keyword that has no such
  method, before anything is pushed.
\<close>

definition addKeyword ::
  "(jsstring \<Rightarrow> jsstring) \<Rightarrow> table \<Rightarrow> jsstring \<Rightarrow> jsval \<Rightarrow> js_error + table" where
  "addKeyword toLowerCase t category' keyword =
     (case get_property t category' of
        Absent \<Rightarrow> Inr t
      | Inherited \<Rightarrow> Inl TypeError
      | Own categoryData \<Rightarrow>
          (case keyword of
             JString k \<Rightarrow>
               Inr (AList.update category'
                      (categoryData\<lparr>keywords := keywords categoryData @ [toLowerCase k]\<rparr>) t)
           | JStringObject k \<Rightarrow>
               Inr (AList.update category'
                      (categoryData\<lparr>keywords := keywords categoryData @ [toLowerCase k]\<rparr>) t)
           | _ \<Rightarrow> Inl TypeError))"

text \<open>
  A sequence of calls, from the table of the source file. A call that throws leaves the
  table as it was.
\<close>

definition call_addKeyword ::
  "(jsstring \<Rightarrow> jsstring) \<Rightarrow> jsstring \<times> jsval \<Rightarrow> table \<Rightarrow> table" where
  "call_addKeyword toLowerCase call t =
     (case addKeyword toLowerCase t (fst call) (snd call) of Inr t' \<Rightarrow> t' | Inl e \<Rightarrow> t)"

definition after_calls ::
  "(jsstring \<Rightarrow> jsstring) \<Rightarrow> (jsstring \<times> jsval) list \<Rightarrow> table" where
  "after_calls toLowerCase calls = fold (call_addKeyword toLowerCase) calls categories"

subsection \<open>\<open>extractTags\<close>\<close>

text \<open>
  \<open>text.match(re)\<close> for a regular expression with the \<open>g\<close> flag: the matches from
  left to right, each search starting where the last match ended (one further after an
  empty match), and \<open>null\<close> (\<open>None\<close>) when there is none.
\<close>

function match_from :: "bool \<Rightarrow> bool \<Rightarrow> regex \<Rightarrow> code_unit option \<Rightarrow> jsstring \<Rightarrow> jsstring list" where
  "match_from ic ml r p s =
     (case ends ic ml r (p, s) of
        [] \<Rightarrow> (case s of [] \<Rightarrow> [] | c # cs \<Rightarrow> match_from ic ml r (Some c) cs)
      | (p', s') # _ \<Rightarrow>
          if length s' < length s
          then take (length s - length s') s # match_from ic ml r p' s'
          else [] # (case s of [] \<Rightarrow> [] | c # cs \<Rightarrow> match_from ic ml r (Some c) cs))"
  by pat_completeness auto
termination
  by (relation "measure (\<lambda>(ic, ml, r, p, s). length s)") auto

declare match_from.simps [simp del]

definition match_global :: "regexp \<Rightarrow> jsstring \<Rightarrow> jsstring list option" where
  "match_global re s =
     (case match_from (ignoreCase re) (multiline re) (body re) None s of
        [] \<Rightarrow> None
      | m # ms \<Rightarrow> Some (m # ms))"

text \<open>\<open>[...new Set(tags)]\<close>: a value is added unless it is there, and keeps its place.\<close>

definition set_add :: "'a list \<Rightarrow> 'a \<Rightarrow> 'a list" where
  "set_add elems x = (if x \<in> set elems then elems else elems @ [x])"

definition new_Set :: "'a list \<Rightarrow> 'a list" where
  "new_Set xs = foldl set_add [] xs"

definition hashtag_re :: regexp where
  "hashtag_re = rx (sequence [Single (ascii CHR ''#''), OneOrMore word_class])"

definition mention_re :: regexp where
  "mention_re = rx (sequence [Single (ascii CHR ''@''), OneOrMore word_class])"

text \<open>
  \<open>tags.push(...matches.map(t => t.slice(1)))\<close>, when \<open>matches\<close> is not \<open>null\<close>.
  On a value that is not a string, \<open>text.match\<close> is read from \<open>null\<close> or
  \<open>undefined\<close>, or is \<open>undefined\<close> and gets called: a \<open>TypeError\<close> either way.
\<close>

definition push_matches :: "jsstring list \<Rightarrow> jsstring list option \<Rightarrow> jsstring list" where
  "push_matches tags matches =
     (case matches of None \<Rightarrow> tags | Some ms \<Rightarrow> tags @ map (drop 1) ms)"

definition tags_of :: "jsstring \<Rightarrow> jsstring list" where
  "tags_of text =
     (let tags = [];
          hashtagMatches = match_global hashtag_re text;
          tags = push_matches tags hashtagMatches;
          mentionMatches = match_global mention_re text;
          tags = push_matches tags mentionMatches
      in new_Set tags)"

fun extractTags :: "jsval \<Rightarrow> js_error + jsstring list" where
  "extractTags (JString text) = Inr (tags_of text)"
| "extractTags (JStringObject text) = Inr (tags_of text)"
| "extractTags v = Inl TypeError"

section \<open>Notions the properties are stated with\<close>

text \<open>
  What \<open>addKeyword\<close> must leave alone: the names of the categories, in their order,
  with the icon and the patterns of each.
\<close>

definition entry_shape :: "jsstring \<times> category_data \<Rightarrow> jsstring \<times> jsstring \<times> regexp list" where
  "entry_shape e = (fst e, icon (snd e), patterns (snd e))"

definition same_shape :: "table \<Rightarrow> table \<Rightarrow> bool" where
  "same_shape t t' = (map entry_shape t = map entry_shape t')"


text \<open>
  Tokens, found by a scan from left to right: a token is a marker followed by word
  characters, as many as there are, and the scan goes on behind the token. No regular
  expression takes part in this definition.
\<close>

function tokens :: "code_unit \<Rightarrow> jsstring \<Rightarrow> jsstring list" where
  "tokens marker [] = []"
| "tokens marker (c # cs) =
     (if c = marker \<and> takeWhile is_word_char cs \<noteq> []
      then (c # takeWhile is_word_char cs) # tokens marker (dropWhile is_word_char cs)
      else tokens marker cs)"
  by pat_completeness auto
termination
  by (relation "measure (\<lambda>(marker, s). length s)")
     (auto simp: le_imp_less_Suc length_dropWhile_le)

definition strip_marker :: "jsstring \<Rightarrow> jsstring" where
  "strip_marker token = tl token"

definition hashtags :: "jsstring \<Rightarrow> jsstring list" where
  "hashtags s = map strip_marker (tokens (ascii CHR ''#'') s)"

definition mentions :: "jsstring \<Rightarrow> jsstring list" where
  "mentions s = map strip_marker (tokens (ascii CHR ''@'') s)"

text \<open>The values of a list in the order of their first occurrence.\<close>

fun first_occurrences :: "'a list \<Rightarrow> 'a list" where
  "first_occurrences [] = []"
| "first_occurrences (x # xs) = x # removeAll x (first_occurrences xs)"

text \<open>
  Four calls of \<open>addKeyword\<close>: one that adds a keyword, one that throws on an inherited
  name, one for an unknown category and one that throws on a keyword that is no string.
\<close>

definition example_calls :: "(jsstring \<times> jsval) list" where
  "example_calls =
     [(str ''zadanie'', JString (str ''HELLO'')), (str ''constructor'', JString (str ''x'')),
      (str ''nope'', JString (str ''y'')), (str ''praca'', JNull)]"

section \<open>Scores and selection\<close>




lemma update_fresh: "k \<notin> fst ` set acc \<Longrightarrow> AList.update k v acc = acc @ [(k, v)]"
  by (induction acc) auto

lemma fold_scores:
  "distinct (map fst t) \<Longrightarrow> fst ` set t \<inter> fst ` set acc = {} \<Longrightarrow>
   fold (\<lambda>(n, d) scores. AList.update n (f d) scores) t acc = acc @ map (\<lambda>(n, d). (n, f d)) t"
proof (induction t arbitrary: acc)
  case Nil
  then show ?case by simp
next
  case (Cons e t)
  obtain n d where e: "e = (n, d)" by (cases e)
  from Cons.prems have fresh: "n \<notin> fst ` set acc" by (auto simp: e)
  have disj: "fst ` set t \<inter> fst ` set (acc @ [(n, f d)]) = {}"
    using Cons.prems by (auto simp: e)
  from Cons.prems have "distinct (map fst t)" by simp
  from Cons.IH [OF this disj] show ?case
    by (simp add: e update_fresh [OF fresh])
qed

lemma compute_scores_map:
  "distinct (map fst t) \<Longrightarrow>
   compute_scores toLowerCase t nt text = map (\<lambda>(n, d). (n, category_score toLowerCase nt text d)) t"
  unfolding compute_scores_def using fold_scores [of t "[]" "category_score toLowerCase nt text"] by simp

lemma select_best_snoc:
  "fold best_step (xs @ [x]) acc = best_step x (fold best_step xs acc)"
  by simp

lemma fold_best_step:
  "fold best_step xs (c, b) = (bc, bs) \<Longrightarrow>
   b \<le> bs \<and> (\<forall>x \<in> set xs. snd x \<le> bs) \<and>
   (if bs = b then bc = c
    else \<exists>i < length xs. xs ! i = (bc, bs) \<and> (\<forall>j < i. snd (xs ! j) < bs))"
proof (induction xs arbitrary: bc bs rule: rev_induct)
  case Nil
  then show ?case by simp
next
  case (snoc x xs)
  obtain n s where x: "x = (n, s)" by (cases x)
  obtain c' b' where f: "fold best_step xs (c, b) = (c', b')" by (cases "fold best_step xs (c, b)")
  note IH = snoc.IH [OF f]
  show ?case
  proof (cases "s > b'")
    case True
    with snoc.prems f x have r: "bc = n" "bs = s" by auto
    have "\<forall>j < length xs. snd ((xs @ [x]) ! j) < bs"
    proof (intro allI impI)
      fix j assume j: "j < length xs"
      then have "xs ! j \<in> set xs" by simp
      with IH have "snd (xs ! j) \<le> b'" by blast
      with True r j show "snd ((xs @ [x]) ! j) < bs" by (simp add: nth_append)
    qed
    moreover have "(xs @ [x]) ! length xs = (bc, bs)" by (simp add: x r)
    ultimately have "\<exists>i < length (xs @ [x]). (xs @ [x]) ! i = (bc, bs) \<and> (\<forall>j < i. snd ((xs @ [x]) ! j) < bs)"
      by (intro exI [of _ "length xs"]) simp
    with IH True r x show ?thesis by auto
  next
    case False
    with snoc.prems f x have r: "bc = c'" "bs = b'" by auto
    show ?thesis
    proof (cases "b' = b")
      case True
      with IH r False x show ?thesis by auto
    next
      case nb: False
      with IH obtain i where i: "i < length xs" "xs ! i = (c', b')" "\<forall>j < i. snd (xs ! j) < b'"
        by auto
      then have "i < length (xs @ [x]) \<and> (xs @ [x]) ! i = (bc, bs) \<and> (\<forall>j < i. snd ((xs @ [x]) ! j) < bs)"
        by (auto simp: nth_append r)
      then have "\<exists>i < length (xs @ [x]). (xs @ [x]) ! i = (bc, bs) \<and> (\<forall>j < i. snd ((xs @ [x]) ! j) < bs)"
        by blast
      with IH r False x nb show ?thesis by auto
    qed
  qed
qed


section \<open>What \<open>addKeyword\<close> preserves\<close>






text \<open>The definitions to unfold when the table is evaluated.\<close>

lemmas category_defs = zadanie_def pomysl_def pytanie_def praca_def zakupy_def wydarzenie_def
  notatka_def inspiracja_def kontakt_def finanse_def zdrowie_def

lemma keys_categories:
  "map fst categories =
     [str ''zadanie'', str ''pomys'' @ [l_stroke], str ''pytanie'', str ''praca'', str ''zakupy'',
      str ''wydarzenie'', str ''notatka'', str ''inspiracja'', str ''kontakt'', str ''finanse'',
      str ''zdrowie'']"
  by (simp add: categories_def)

lemma distinct_categories: "distinct (map fst categories)"
  unfolding keys_categories by (simp add: str_def)

lemma notatka_categories: "map_of categories (str ''notatka'') = Some notatka"
  by (simp add: categories_def str_def)



lemma shape_keys: "same_shape t t' \<Longrightarrow> map fst t = map fst t'"
proof -
  assume "same_shape t t'"
  then have "map (fst \<circ> entry_shape) t = map (fst \<circ> entry_shape) t'"
    unfolding same_shape_def by (metis map_map)
  then show ?thesis by (simp add: entry_shape_def comp_def)
qed

lemma shape_lookup:
  "map entry_shape t = map entry_shape t' \<Longrightarrow> map_of t' k = Some d' \<Longrightarrow>
   \<exists>d. map_of t k = Some d \<and> icon d = icon d' \<and> patterns d = patterns d'"
proof (induction t arbitrary: t')
  case Nil
  then show ?case by simp
next
  case (Cons e t)
  then obtain e' u where t': "t' = e' # u" by (cases t') auto
  with Cons.prems have hd: "entry_shape e = entry_shape e'" and tl: "map entry_shape t = map entry_shape u"
    by auto
  show ?case
  proof (cases "fst e' = k")
    case True
    with Cons.prems t' have "snd e' = d'" by (cases e') auto
    with hd True show ?thesis by (cases e) (auto simp: entry_shape_def)
  next
    case False
    with Cons.prems t' have "map_of u k = Some d'" by (cases e') auto
    from Cons.IH [OF tl this] hd False show ?thesis by (cases e) (auto simp: entry_shape_def)
  qed
qed

lemma update_shape:
  "map_of t k = Some d \<Longrightarrow> icon d' = icon d \<Longrightarrow> patterns d' = patterns d \<Longrightarrow>
   map entry_shape (AList.update k d' t) = map entry_shape t"
  by (induction t) (auto simp: entry_shape_def split: if_splits)



lemma addKeyword_cases:
  "addKeyword toLowerCase t c kw = Inr t' \<Longrightarrow>
   t' = t \<or> (\<exists>d k. map_of t c = Some d \<and> (kw = JString k \<or> kw = JStringObject k) \<and>
               t' = AList.update c (d\<lparr>keywords := keywords d @ [toLowerCase k]\<rparr>) t)"
  by (auto simp: addKeyword_def get_property_def split: option.splits if_splits jsval.splits)

lemma addKeyword_shape: "addKeyword toLowerCase t c kw = Inr t' \<Longrightarrow> same_shape t' t"
  using addKeyword_cases [of toLowerCase t c kw t'] by (auto simp: same_shape_def update_shape)


lemma call_shape: "same_shape (call_addKeyword toLowerCase call t) t"
  by (auto simp: call_addKeyword_def same_shape_def split: sum.splits dest: addKeyword_shape)


lemma fold_calls_shape:
  "same_shape t u \<Longrightarrow> same_shape (fold (call_addKeyword toLowerCase) calls t) u"
proof (induction calls arbitrary: t)
  case Nil
  then show ?case by simp
next
  case (Cons call calls)
  have "same_shape (call_addKeyword toLowerCase call t) u"
    using call_shape [of toLowerCase call t] Cons.prems by (simp add: same_shape_def)
  then show ?case using Cons.IH by simp
qed


lemma after_calls_shape: "same_shape (after_calls toLowerCase calls) categories"
  using fold_calls_shape [of categories categories toLowerCase calls]
  by (simp add: after_calls_def same_shape_def)



section \<open>The result of \<open>categorize\<close> on a table of the right shape\<close>

lemma select_best_cases:
  assumes "select_best scores = (bc, bs)"
  shows "(\<forall>e \<in> set scores. snd e \<le> bs) \<and>
         (if bs = 0 then bc = str ''notatka''
          else \<exists>i < length scores. scores ! i = (bc, bs) \<and> (\<forall>j < i. snd (scores ! j) < bs))"
  using fold_best_step [of scores "str ''notatka''" 0 bc bs] assms
  by (simp add: select_best_def)

lemma distinct_shape: "same_shape t categories \<Longrightarrow> distinct (map fst t)"
  using shape_keys [of t categories] distinct_categories by simp

lemma scores_keys:
  "same_shape t categories \<Longrightarrow> map fst (compute_scores toLowerCase t nt text) = map fst t"
  by (simp add: compute_scores_map distinct_shape case_prod_unfold comp_def)

lemma scores_lookup:
  assumes "same_shape t categories" and "(name, d) \<in> set t"
  shows "map_of (compute_scores toLowerCase t nt text) name = Some (category_score toLowerCase nt text d)"
proof -
  have d: "distinct (map fst t)" using assms(1) by (rule distinct_shape)
  have "(name, category_score toLowerCase nt text d) \<in> set (map (\<lambda>(n, d). (n, category_score toLowerCase nt text d)) t)"
    using assms(2) by force
  moreover have "distinct (map fst (map (\<lambda>(n, d). (n, category_score toLowerCase nt text d)) t))"
    using d by (simp add: case_prod_unfold comp_def)
  ultimately show ?thesis
    by (simp add: compute_scores_map [OF d] del: map_map)
qed

lemma notatka_lookup:
  assumes "same_shape t categories"
  shows "\<exists>d. map_of t (str ''notatka'') = Some d \<and> icon d = [0xD83D, 0xDCDD]"
proof -
  from assms have "map entry_shape t = map entry_shape categories" by (simp add: same_shape_def)
  from shape_lookup [OF this notatka_categories] show ?thesis by (auto simp: notatka_def)
qed

lemma categorize_text_result:
  assumes shape: "same_shape t categories"
    and best: "select_best (compute_scores toLowerCase t (trim (toLowerCase text)) text) = (bc, bs)"
  shows "\<exists>d. map_of t bc = Some d \<and>
           categorize_text toLowerCase t text =
             Inr \<lparr>category = bc, result_icon = JString (icon d),
                  confidence = min (of_nat bs / 15) 1\<rparr>"
proof -
  let ?scores = "compute_scores toLowerCase t (trim (toLowerCase text)) text"
  have "\<exists>d. map_of t bc = Some d"
  proof (cases "bs = 0")
    case True
    with select_best_cases [OF best] have "bc = str ''notatka''" by simp
    with notatka_lookup [OF shape] show ?thesis by auto
  next
    case False
    with select_best_cases [OF best] obtain i where "i < length ?scores" "?scores ! i = (bc, bs)"
      by auto
    then have "(bc, bs) \<in> set ?scores" by (metis nth_mem)
    then have "bc \<in> set (map fst ?scores)" by force
    then have "bc \<in> set (map fst t)" by (simp only: scores_keys [OF shape])
    then show ?thesis by (metis map_of_eq_None_iff not_Some_eq set_map)
  qed
  then obtain d where d: "map_of t bc = Some d" ..
  then have "categorize_text toLowerCase t text =
             Inr \<lparr>category = bc, result_icon = JString (icon d),
                  confidence = min (of_nat bs / 15) 1\<rparr>"
    by (simp add: categorize_text_def Let_def best get_property_def)
  with d show ?thesis by blast
qed


lemma best_in_scores:
  assumes "select_best scores = (bc, bs)" and "bs \<noteq> 0"
  shows "\<exists>i < length scores. scores ! i = (bc, bs) \<and> (\<forall>j < i. snd (scores ! j) < bs)"
  using select_best_cases [OF assms(1)] assms(2) by simp

lemma best_is_max:
  assumes "select_best scores = (bc, bs)"
  shows "\<forall>e \<in> set scores. snd e \<le> bs"
  using select_best_cases [OF assms] by simp

lemma best_zero:
  assumes "select_best scores = (bc, 0)"
  shows "bc = str ''notatka''"
  using select_best_cases [OF assms] by simp

lemma categorize_nonempty:
  assumes "same_shape t categories" and "s \<noteq> []"
    and "select_best (compute_scores toLowerCase t (trim (toLowerCase s)) s) = (bc, bs)"
  shows "\<exists>d. map_of t bc = Some d \<and>
           categorize toLowerCase t (JString s) =
             Inr \<lparr>category = bc, result_icon = JString (icon d),
                  confidence = min (of_nat bs / 15) 1\<rparr>"
  using categorize_text_result [OF assms(1) assms(3)] assms(2) by simp

lemma categorize_guard:
  assumes "\<forall>s. v = JString s \<longrightarrow> s = []"
  shows "categorize toLowerCase t v = Inr fallback_result"
  using assms by (cases v) simp_all

lemma winner_score:
  assumes shape: "same_shape t categories"
    and best: "select_best (compute_scores toLowerCase t nt s) = (bc, bs)"
  shows "map_of (compute_scores toLowerCase t nt s) bc = Some bs"
proof (cases "bs = 0")
  case True
  with best have "bc = str ''notatka''" by (simp add: best_zero)
  with notatka_lookup [OF shape] obtain d where "map_of t bc = Some d" by blast
  then have "(bc, d) \<in> set t" by (rule map_of_SomeD)
  from scores_lookup [OF shape this]
  have look: "map_of (compute_scores toLowerCase t nt s) bc = Some (category_score toLowerCase nt s d)" .
  then have "(bc, category_score toLowerCase nt s d) \<in> set (compute_scores toLowerCase t nt s)" by (rule map_of_SomeD)
  with best_is_max [OF best] True have "category_score toLowerCase nt s d = 0" by force
  with look True show ?thesis by simp
next
  case False
  with best_in_scores [OF best] obtain i where
    "i < length (compute_scores toLowerCase t nt s)" "compute_scores toLowerCase t nt s ! i = (bc, bs)"
    by blast
  then have "(bc, bs) \<in> set (compute_scores toLowerCase t nt s)" by (metis nth_mem)
  moreover have "distinct (map fst (compute_scores toLowerCase t nt s))"
    using scores_keys [OF shape] distinct_shape [OF shape] by simp
  ultimately show ?thesis by simp
qed

section \<open>The tag patterns find the tokens\<close>

lemma ends_word: 
  "ends ic ml word_class (p, s) =
     (case s of [] \<Rightarrow> [] | c # cs \<Rightarrow> if is_word_char c then [(Some c, cs)] else [])"
  by (cases s) simp_all

lemma ends_star_word:
  "ends ic ml (Star word_class) (p, s) \<noteq> [] \<and>
   snd (hd (ends ic ml (Star word_class) (p, s))) = dropWhile is_word_char s"
proof (induction s arbitrary: p)
  case Nil
  show ?case by simp
next
  case (Cons c cs)
  show ?case
  proof (cases "is_word_char c")
    case True
    then have "ends ic ml (Star word_class) (p, c # cs) =
                 ends ic ml (Star word_class) (Some c, cs) @ [(p, c # cs)]"
      by simp
    with Cons.IH [of "Some c"] True show ?thesis by (simp del: ends.simps)
  next
    case False
    then show ?thesis by simp
  qed
qed

lemma ends_tag:
  "ends False False (Seq (Single m) (OneOrMore word_class)) (p, s) =
     (case s of
        c # d # ds \<Rightarrow>
          if c = m \<and> is_word_char d then ends False False (Star word_class) (Some d, ds) else []
      | _ \<Rightarrow> [])"
proof (cases s)
  case Nil
  then show ?thesis by simp
next
  case (Cons c cs)
  then show ?thesis by (cases cs) simp_all
qed

lemma take_token:
  "take (Suc (length cs) - length (dropWhile P cs)) (c # cs) = c # takeWhile P cs"
proof -
  have "length (takeWhile P cs) + length (dropWhile P cs) = length cs"
    by (metis length_append takeWhile_dropWhile_id)
  then have "Suc (length cs) - length (dropWhile P cs) = Suc (length (takeWhile P cs))"
    by arith
  then show ?thesis by (simp add: takeWhile_eq_take [symmetric])
qed

lemma match_from_tag:
  "match_from False False (Seq (Single m) (OneOrMore word_class)) p s = tokens m s"
proof (induction m s arbitrary: p rule: tokens.induct)
  case (1 marker)
  show ?case by (subst match_from.simps) simp
next
  case (2 marker c cs)
  let ?r = "Seq (Single marker) (OneOrMore word_class)"
  show ?case
  proof (cases "c = marker \<and> takeWhile is_word_char cs \<noteq> []")
    case True
    then obtain d ds where cs: "cs = d # ds" and d: "is_word_char d"
      by (cases cs) (auto split: if_splits)
    from ends_star_word [of False False "Some d" ds]
    obtain p' s' rest where e: "ends False False (Star word_class) (Some d, ds) = (p', s') # rest"
      and s': "s' = dropWhile is_word_char ds"
      by (cases "ends False False (Star word_class) (Some d, ds)") (auto simp del: ends.simps)
    have tag: "ends False False ?r (p, c # cs) = (p', s') # rest"
      using True cs d e by (simp add: ends_tag del: ends.simps)
    have s'cs: "s' = dropWhile is_word_char cs" using s' cs d by simp
    have len: "length s' < length (c # cs)"
      unfolding s'cs by (simp add: le_imp_less_Suc length_dropWhile_le)
    have "match_from False False ?r p (c # cs) =
            take (length (c # cs) - length s') (c # cs) # match_from False False ?r p' s'"
      by (subst match_from.simps) (simp only: tag list.case prod.case len if_True)
    also have "take (length (c # cs) - length s') (c # cs) = c # takeWhile is_word_char cs"
      unfolding s'cs using take_token [of cs is_word_char c] by simp
    also have "match_from False False ?r p' s' = tokens marker (dropWhile is_word_char cs)"
      unfolding s'cs using True by (rule "2.IH"(1))
    finally have "match_from False False ?r p (c # cs) =
        (c # takeWhile is_word_char cs) # tokens marker (dropWhile is_word_char cs)" .
    moreover have "tokens marker (c # cs) =
        (c # takeWhile is_word_char cs) # tokens marker (dropWhile is_word_char cs)"
      using True by simp
    ultimately show ?thesis by (simp only:)
  next
    case False
    have "ends False False ?r (p, c # cs) = []"
    proof (cases cs)
      case Nil
      then show ?thesis by (simp only: ends_tag list.case)
    next
      case (Cons d ds)
      with False have "\<not> (c = marker \<and> is_word_char d)" by auto
      with Cons show ?thesis by (simp only: ends_tag list.case if_False)
    qed
    then have "match_from False False ?r p (c # cs) = match_from False False ?r (Some c) cs"
      by (subst match_from.simps) (simp only: list.case)
    also have "\<dots> = tokens marker cs" using False by (rule "2.IH"(2))
    finally have "match_from False False ?r p (c # cs) = tokens marker cs" .
    moreover have "tokens marker (c # cs) = tokens marker cs"
      using False by auto
    ultimately show ?thesis by (simp only:)
  qed
qed

lemma body_hashtag_re:
  "body hashtag_re = Seq (Single (ascii CHR ''#'')) (OneOrMore word_class)"
  "ignoreCase hashtag_re = False" "multiline hashtag_re = False"
  by (simp_all add: hashtag_re_def rx_def del: One_nat_def)

lemma body_mention_re:
  "body mention_re = Seq (Single (ascii CHR ''@'')) (OneOrMore word_class)"
  "ignoreCase mention_re = False" "multiline mention_re = False"
  by (simp_all add: mention_re_def rx_def del: One_nat_def)

lemma push_hashtags:
  "push_matches tags (match_global hashtag_re s) = tags @ map (drop 1) (tokens (ascii CHR ''#'') s)"
  unfolding push_matches_def match_global_def body_hashtag_re match_from_tag
  by (cases "tokens (ascii CHR ''#'') s") simp_all

lemma push_mentions:
  "push_matches tags (match_global mention_re s) = tags @ map (drop 1) (tokens (ascii CHR ''@'') s)"
  unfolding push_matches_def match_global_def body_mention_re match_from_tag
  by (cases "tokens (ascii CHR ''@'') s") simp_all

lemma drop_1_tl: "drop 1 = strip_marker"
  by (rule ext) (simp add: strip_marker_def drop_Suc)

lemma extractTags_tokens:
  "extractTags (JString s) = Inr (new_Set (hashtags s @ mentions s))"
  unfolding extractTags.simps tags_of_def Let_def push_hashtags push_mentions hashtags_def
    mentions_def drop_1_tl
  by simp

section \<open>What the scan finds\<close>

text \<open>
  The tokens of \<open>tokens\<close> are the occurrences of the marker in the text that are
  followed by word characters, each with all the word characters that follow it.
\<close>

lemma run_before_marker:
  assumes eq: "tw @ dw = pre @ m # rest"
    and word: "\<forall>x \<in> set tw. is_word_char x" and m: "\<not> is_word_char m"
  shows "\<exists>pre'. pre = tw @ pre' \<and> dw = pre' @ m # rest"
proof -
  from eq consider us where "tw = pre @ us" "us @ dw = m # rest"
    | us where "tw @ us = pre" "dw = us @ m # rest"
    by (auto simp: append_eq_append_conv2)
  then show ?thesis
  proof cases
    case 1
    show ?thesis
    proof (cases us)
      case Nil
      with 1 show ?thesis by simp
    next
      case (Cons u us')
      with 1 have "m \<in> set tw" by simp
      with word m show ?thesis by blast
    qed
  next
    case 2
    then show ?thesis by auto
  qed
qed

lemma takeWhile_run:
  assumes "\<forall>x \<in> set w. P x" and "post = [] \<or> \<not> P (hd post)"
  shows "takeWhile P (w @ post) = w"
  using assms by (cases post) (simp_all add: takeWhile_append2)

lemma tokens_iff:
  "\<not> is_word_char m \<Longrightarrow>
   tok \<in> set (tokens m s) \<longleftrightarrow>
     (\<exists>pre w post. s = pre @ m # w @ post \<and> tok = m # w \<and> w \<noteq> [] \<and>
        (\<forall>x \<in> set w. is_word_char x) \<and> (post = [] \<or> \<not> is_word_char (hd post)))"
proof (induction m s rule: tokens.induct)
  case (1 marker)
  show ?case by simp
next
  case (2 marker c cs)
  let ?tw = "takeWhile is_word_char cs" and ?dw = "dropWhile is_word_char cs"
  let ?occ = "\<lambda>s. \<exists>pre w post. s = pre @ marker # w @ post \<and> tok = marker # w \<and> w \<noteq> [] \<and>
            (\<forall>x \<in> set w. is_word_char x) \<and> (post = [] \<or> \<not> is_word_char (hd post))"
  note m = "2.prems"
  have split: "cs = ?tw @ ?dw" by simp
  have tw_word: "\<forall>x \<in> set ?tw. is_word_char x" by (auto dest: set_takeWhileD)
  have dw_stop: "?dw = [] \<or> \<not> is_word_char (hd ?dw)" by (metis hd_dropWhile)
  show ?case
  proof (cases "c = marker \<and> ?tw \<noteq> []")
    case True
    then have tok: "tokens marker (c # cs) = (c # ?tw) # tokens marker ?dw" by simp
    from "2.IH"(1) [OF True m] have IH: "tok \<in> set (tokens marker ?dw) \<longleftrightarrow> ?occ ?dw" .
    show ?thesis
    proof
      assume "tok \<in> set (tokens marker (c # cs))"
      with tok have "tok = c # ?tw \<or> tok \<in> set (tokens marker ?dw)" by simp
      then show "?occ (c # cs)"
      proof
        assume t: "tok = c # ?tw"
        have "c # cs = [] @ marker # ?tw @ ?dw" using True by simp
        with t True tw_word dw_stop show ?thesis by blast
      next
        assume "tok \<in> set (tokens marker ?dw)"
        with IH obtain pre w post where o: "?dw = pre @ marker # w @ post" "tok = marker # w"
          "w \<noteq> []" "\<forall>x \<in> set w. is_word_char x" "post = [] \<or> \<not> is_word_char (hd post)"
          by blast
        have "c # cs = (c # ?tw @ pre) @ marker # w @ post"
          using split o(1) by (metis append_Cons append_assoc)
        with o show ?thesis by blast
      qed
    next
      assume "?occ (c # cs)"
      then obtain pre w post where o: "c # cs = pre @ marker # w @ post" "tok = marker # w"
        "w \<noteq> []" "\<forall>x \<in> set w. is_word_char x" "post = [] \<or> \<not> is_word_char (hd post)"
        by blast
      show "tok \<in> set (tokens marker (c # cs))"
      proof (cases pre)
        case Nil
        with o(1) have "cs = w @ post" by simp
        with takeWhile_run [OF o(4,5)] have "?tw = w" by simp
        with o(2) True tok show ?thesis by simp
      next
        case (Cons p pre')
        with o(1) have "?tw @ ?dw = pre' @ marker # (w @ post)" by simp
        from run_before_marker [OF this tw_word m]
        obtain pre'' where "?dw = pre'' @ marker # w @ post" by blast
        with o have "?occ ?dw" by blast
        with IH tok show ?thesis by simp
      qed
    qed
  next
    case False
    then have tok: "tokens marker (c # cs) = tokens marker cs" by auto
    from "2.IH"(2) [OF False m] have IH: "tok \<in> set (tokens marker cs) \<longleftrightarrow> ?occ cs" .
    show ?thesis
    proof
      assume "tok \<in> set (tokens marker (c # cs))"
      with tok IH obtain pre w post where o: "cs = pre @ marker # w @ post" "tok = marker # w"
        "w \<noteq> []" "\<forall>x \<in> set w. is_word_char x" "post = [] \<or> \<not> is_word_char (hd post)"
        by auto
      have "c # cs = (c # pre) @ marker # w @ post" using o(1) by simp
      with o show "?occ (c # cs)" by blast
    next
      assume "?occ (c # cs)"
      then obtain pre w post where o: "c # cs = pre @ marker # w @ post" "tok = marker # w"
        "w \<noteq> []" "\<forall>x \<in> set w. is_word_char x" "post = [] \<or> \<not> is_word_char (hd post)"
        by blast
      show "tok \<in> set (tokens marker (c # cs))"
      proof (cases pre)
        case Nil
        with o(1) have c: "c = marker" and "cs = w @ post" by simp_all
        with takeWhile_run [OF o(4,5)] have "?tw = w" by simp
        with o(3) c False show ?thesis by simp
      next
        case (Cons p pre')
        with o(1) have "cs = pre' @ marker # w @ post" by simp
        with o have "?occ cs" by blast
        with IH tok show ?thesis by simp
      qed
    qed
  qed
qed

lemma stripped_tokens_iff:
  assumes "\<not> is_word_char m"
  shows "tag \<in> set (map strip_marker (tokens m s)) \<longleftrightarrow>
         (\<exists>pre post. s = pre @ m # tag @ post \<and> tag \<noteq> [] \<and>
            (\<forall>x \<in> set tag. is_word_char x) \<and> (post = [] \<or> \<not> is_word_char (hd post)))"
proof
  assume "tag \<in> set (map strip_marker (tokens m s))"
  then obtain tok where "tok \<in> set (tokens m s)" and t: "tag = strip_marker tok" by auto
  with tokens_iff [OF assms, of tok s] obtain pre w post where
    "s = pre @ m # w @ post" "tok = m # w" "w \<noteq> []" "\<forall>x \<in> set w. is_word_char x"
    "post = [] \<or> \<not> is_word_char (hd post)"
    by blast
  with t show "\<exists>pre post. s = pre @ m # tag @ post \<and> tag \<noteq> [] \<and>
            (\<forall>x \<in> set tag. is_word_char x) \<and> (post = [] \<or> \<not> is_word_char (hd post))"
    by (auto simp: strip_marker_def)
next
  assume "\<exists>pre post. s = pre @ m # tag @ post \<and> tag \<noteq> [] \<and>
            (\<forall>x \<in> set tag. is_word_char x) \<and> (post = [] \<or> \<not> is_word_char (hd post))"
  with tokens_iff [OF assms, of "m # tag" s] have "m # tag \<in> set (tokens m s)" by blast
  then have "strip_marker (m # tag) \<in> set (map strip_marker (tokens m s))"
    by (metis imageI set_map)
  then show "tag \<in> set (map strip_marker (tokens m s))" by (simp add: strip_marker_def)
qed

lemma markers_not_word:
  "\<not> is_word_char (ascii CHR ''#'')" "\<not> is_word_char (ascii CHR ''@'')"
  by (simp_all add: is_word_char_def is_digit_def)

section \<open>\<open>new Set\<close> keeps first occurrences\<close>

lemma set_first_occurrences: "set (first_occurrences xs) = set xs"
  by (induction xs) auto

lemma distinct_first_occurrences: "distinct (first_occurrences xs)"
  by (induction xs) (auto simp: distinct_removeAll)

lemma foldl_set_add:
  "foldl set_add acc xs = acc @ filter (\<lambda>y. y \<notin> set acc) (first_occurrences xs)"
proof (induction xs arbitrary: acc)
  case Nil
  show ?case by simp
next
  case (Cons x xs)
  show ?case
  proof (cases "x \<in> set acc")
    case True
    have "filter (\<lambda>y. y \<notin> set acc) (removeAll x (first_occurrences xs)) =
          filter (\<lambda>y. y \<notin> set acc) (first_occurrences xs)"
      using True by (auto simp: removeAll_filter_not_eq intro: filter_cong)
    with True Cons.IH [of acc] show ?thesis by (simp add: set_add_def)
  next
    case False
    have "filter (\<lambda>y. y \<notin> set (acc @ [x])) (first_occurrences xs) =
          filter (\<lambda>y. y \<notin> set acc) (removeAll x (first_occurrences xs))"
      by (auto simp: removeAll_filter_not_eq intro: filter_cong)
    with False Cons.IH [of "acc @ [x]"] show ?thesis by (simp add: set_add_def)
  qed
qed

lemma new_Set_first_occurrences: "new_Set xs = first_occurrences xs"
  by (simp add: new_Set_def foldl_set_add)

lemma new_Set_append:
  "new_Set (xs @ ys) = first_occurrences xs @ filter (\<lambda>y. y \<notin> set xs) (first_occurrences ys)"
  by (simp add: new_Set_def foldl_set_add set_first_occurrences)

section \<open>Evaluating the code on examples\<close>

text \<open>The definitions to unfold when a score is evaluated.\<close>

lemmas eval_defs = category_score_def keyword_step_def pattern_step_def test_def rx_def rx_i_def
  rx_m_def lower_latin_def lower_unit_def str_def canonicalize_def is_whitespace_def
  is_line_terminator_def is_digit_def is_word_char_def trim_def

lemmas call_defs = after_calls_def call_addKeyword_def addKeyword_def get_property_def
  object_prototype_names_def

lemma categorize_eval:
  assumes "s \<noteq> []"
    and "compute_scores toLowerCase t (trim (toLowerCase s)) s = scores"
    and "select_best scores = (bc, bs)"
    and "get_property t bc = Own d"
  shows "categorize toLowerCase t (JString s) =
           Inr \<lparr>category = bc, result_icon = JString (icon d),
                confidence = min (of_nat bs / 15) 1\<rparr>"
  using assms by (simp add: categorize_text_def Let_def)

text \<open>\<open>"spotkanie"\<close> is a keyword of \<open>praca\<close> and of \<open>wydarzenie\<close>: a tie.\<close>

lemma scores_spotkanie:
  "compute_scores lower_latin (after_calls lower_latin []) (trim (lower_latin (str ''spotkanie''))) (str ''spotkanie'') =
     [(str ''zadanie'', 0), (str ''pomys'' @ [l_stroke], 0), (str ''pytanie'', 0),
      (str ''praca'', 2), (str ''zakupy'', 0), (str ''wydarzenie'', 2), (str ''notatka'', 0),
      (str ''inspiracja'', 0), (str ''kontakt'', 0), (str ''finanse'', 0), (str ''zdrowie'', 0)]"
  by (simp add: after_calls_def compute_scores_def categories_def category_defs eval_defs)

lemma result_spotkanie:
  "categorize lower_latin (after_calls lower_latin []) (JString (str ''spotkanie'')) =
     Inr \<lparr>category = str ''praca'', result_icon = JString [0xD83D, 0xDCBC],
          confidence = 2 / 15\<rparr>"
proof -
  have "str ''spotkanie'' \<noteq> []" by (simp add: str_def)
  moreover note scores_spotkanie
  moreover have "select_best
      [(str ''zadanie'', 0), (str ''pomys'' @ [l_stroke], 0), (str ''pytanie'', 0),
       (str ''praca'', 2), (str ''zakupy'', 0), (str ''wydarzenie'', 2), (str ''notatka'', 0),
       (str ''inspiracja'', 0), (str ''kontakt'', 0), (str ''finanse'', 0), (str ''zdrowie'', 0)]
      = (str ''praca'', 2)"
    by (simp add: select_best_def)
  moreover have "get_property (after_calls lower_latin []) (str ''praca'') = Own praca"
    by (simp add: get_property_def after_calls_def categories_def str_def)
  ultimately have "categorize lower_latin (after_calls lower_latin []) (JString (str ''spotkanie'')) =
      Inr \<lparr>category = str ''praca'', result_icon = JString (icon praca),
           confidence = min (of_nat 2 / 15) 1\<rparr>"
    by (rule categorize_eval)
  then show ?thesis by (simp add: praca_def)
qed

text \<open>Four keywords and three patterns of \<open>pytanie\<close>: a score of 17, above the divisor.\<close>

lemma scores_czy:
  "compute_scores lower_latin (after_calls lower_latin []) (trim (lower_latin (str ''Czy kto co jak?'')))
     (str ''Czy kto co jak?'') =
     [(str ''zadanie'', 0), (str ''pomys'' @ [l_stroke], 0), (str ''pytanie'', 17),
      (str ''praca'', 0), (str ''zakupy'', 0), (str ''wydarzenie'', 0), (str ''notatka'', 0),
      (str ''inspiracja'', 0), (str ''kontakt'', 0), (str ''finanse'', 0), (str ''zdrowie'', 0)]"
  by (simp add: after_calls_def compute_scores_def categories_def category_defs eval_defs)

lemma result_czy:
  "categorize lower_latin (after_calls lower_latin []) (JString (str ''Czy kto co jak?'')) =
     Inr \<lparr>category = str ''pytanie'', result_icon = JString [0x2753], confidence = 1\<rparr>"
proof -
  have "str ''Czy kto co jak?'' \<noteq> []" by (simp add: str_def)
  moreover note scores_czy
  moreover have "select_best
      [(str ''zadanie'', 0), (str ''pomys'' @ [l_stroke], 0), (str ''pytanie'', 17),
       (str ''praca'', 0), (str ''zakupy'', 0), (str ''wydarzenie'', 0), (str ''notatka'', 0),
       (str ''inspiracja'', 0), (str ''kontakt'', 0), (str ''finanse'', 0), (str ''zdrowie'', 0)]
      = (str ''pytanie'', 17)"
    by (simp add: select_best_def)
  moreover have "get_property (after_calls lower_latin []) (str ''pytanie'') = Own pytanie"
    by (simp add: get_property_def after_calls_def categories_def str_def)
  ultimately have "categorize lower_latin (after_calls lower_latin []) (JString (str ''Czy kto co jak?'')) =
      Inr \<lparr>category = str ''pytanie'', result_icon = JString (icon pytanie),
           confidence = min (of_nat 17 / 15) 1\<rparr>"
    by (rule categorize_eval)
  then show ?thesis by (simp add: pytanie_def)
qed

text \<open>No keyword and no pattern of any category matches \<open>"hello world"\<close>.\<close>

lemma scores_hello_world:
  "compute_scores lower_latin (after_calls lower_latin []) (trim (lower_latin (str ''hello world'')))
     (str ''hello world'') =
     [(str ''zadanie'', 0), (str ''pomys'' @ [l_stroke], 0), (str ''pytanie'', 0),
      (str ''praca'', 0), (str ''zakupy'', 0), (str ''wydarzenie'', 0), (str ''notatka'', 0),
      (str ''inspiracja'', 0), (str ''kontakt'', 0), (str ''finanse'', 0), (str ''zdrowie'', 0)]"
  by (simp add: after_calls_def compute_scores_def categories_def category_defs eval_defs)

lemma table_example_calls:
  "after_calls lower_latin example_calls =
     (str ''zadanie'', zadanie\<lparr>keywords := keywords zadanie @ [str ''hello'']\<rparr>) # tl categories"
  by (simp add: example_calls_def call_defs categories_def lower_latin_def lower_unit_def str_def)

lemma scores_example_calls:
  "compute_scores lower_latin (after_calls lower_latin example_calls) (trim (lower_latin (str ''hello world'')))
     (str ''hello world'') =
     [(str ''zadanie'', 2), (str ''pomys'' @ [l_stroke], 0), (str ''pytanie'', 0),
      (str ''praca'', 0), (str ''zakupy'', 0), (str ''wydarzenie'', 0), (str ''notatka'', 0),
      (str ''inspiracja'', 0), (str ''kontakt'', 0), (str ''finanse'', 0), (str ''zdrowie'', 0)]"
  unfolding table_example_calls
  by (simp add: compute_scores_def categories_def category_defs eval_defs)

lemma result_example_calls:
  "categorize lower_latin (after_calls lower_latin example_calls) (JString (str ''hello world'')) =
     Inr \<lparr>category = str ''zadanie'', result_icon = JString [0x2705], confidence = 2 / 15\<rparr>"
proof -
  have "str ''hello world'' \<noteq> []" by (simp add: str_def)
  moreover note scores_example_calls
  moreover have "select_best
      [(str ''zadanie'', 2), (str ''pomys'' @ [l_stroke], 0), (str ''pytanie'', 0),
       (str ''praca'', 0), (str ''zakupy'', 0), (str ''wydarzenie'', 0), (str ''notatka'', 0),
       (str ''inspiracja'', 0), (str ''kontakt'', 0), (str ''finanse'', 0), (str ''zdrowie'', 0)]
      = (str ''zadanie'', 2)"
    by (simp add: select_best_def)
  moreover have "get_property (after_calls lower_latin example_calls) (str ''zadanie'') =
      Own (zadanie\<lparr>keywords := keywords zadanie @ [str ''hello'']\<rparr>)"
    unfolding table_example_calls by (simp add: get_property_def)
  ultimately have "categorize lower_latin (after_calls lower_latin example_calls) (JString (str ''hello world'')) =
      Inr \<lparr>category = str ''zadanie'',
           result_icon = JString (icon (zadanie\<lparr>keywords := keywords zadanie @ [str ''hello'']\<rparr>)),
           confidence = min (of_nat 2 / 15) 1\<rparr>"
    by (rule categorize_eval)
  then show ?thesis by (simp add: zadanie_def)
qed

section \<open>Lemmas shared by the claims\<close>

lemma category_in_table_lemma:
  "\<exists>r d. categorize toLowerCase (after_calls toLowerCase calls) v = Inr r \<and>
     map_of (after_calls toLowerCase calls) (category r) = Some d \<and> result_icon r = JString (icon d)"
proof (cases "\<forall>s. v = JString s \<longrightarrow> s = []")
  case True
  from categorize_guard [OF this] have "categorize toLowerCase (after_calls toLowerCase calls) v = Inr fallback_result" .
  with notatka_lookup [OF after_calls_shape [of toLowerCase calls]] show ?thesis
    by (auto simp: fallback_result_def)
next
  case False
  then obtain s where v: "v = JString s" "s \<noteq> []" by blast
  let ?scores = "compute_scores toLowerCase (after_calls toLowerCase calls) (trim (toLowerCase s)) s"
  obtain bc bs where best: "select_best ?scores = (bc, bs)" by (cases "select_best ?scores")
  from categorize_nonempty [OF after_calls_shape v(2) best]
  obtain d where "map_of (after_calls toLowerCase calls) bc = Some d"
    and "categorize toLowerCase (after_calls toLowerCase calls) (JString s) =
      Inr \<lparr>category = bc, result_icon = JString (icon d), confidence = min (of_nat bs / 15) 1\<rparr>"
    by blast
  then show ?thesis unfolding v(1) by simp
qed

text \<open>
  What \<open>addKeyword\<close> does for a category of the table and a string keyword: the
  lower-cased keyword is appended to the keyword list of that category, and nothing else
  changes.
\<close>

lemma addKeyword_appends:
  assumes "distinct (map fst t)" and "map_of t c = Some d"
  shows "\<exists>t'. addKeyword toLowerCase t c (JString k) = Inr t' \<and>
           map fst t' = map fst t \<and>
           map_of t' c = Some (d\<lparr>keywords := keywords d @ [toLowerCase k]\<rparr>) \<and>
           (\<forall>c'. c' \<noteq> c \<longrightarrow> map_of t' c' = map_of t c')"
proof -
  let ?d = "d\<lparr>keywords := keywords d @ [toLowerCase k]\<rparr>"
  have "addKeyword toLowerCase t c (JString k) = Inr (AList.update c ?d t)"
    using assms(2) by (simp add: addKeyword_def get_property_def)
  moreover have "c \<in> fst ` set t" using assms(2) by (metis map_of_eq_None_iff option.distinct(1))
  then have "map fst (AList.update c ?d t) = map fst t" by (simp add: update_keys)
  moreover have "map_of (AList.update c ?d t) c = Some ?d" by (simp add: update_conv')
  moreover have "\<forall>c'. c' \<noteq> c \<longrightarrow> map_of (AList.update c ?d t) c' = map_of t c'"
    by (simp add: update_conv')
  ultimately show ?thesis by blast
qed

section \<open>The claims\<close>




text \<open>
  C2. For a non-empty string on which some category scores above 0, \<open>categorize\<close>
  returns the category at the first position of the table, in iteration order, whose
  score is the highest: no score is greater, and every score before it is smaller.
\<close>

theorem highest_score_first_wins:
  assumes "text \<noteq> []"
    and "scores = compute_scores toLowerCase (after_calls toLowerCase calls) (trim (toLowerCase text)) text"
    and "\<exists>e \<in> set scores. 0 < snd e"
  shows "\<exists>r i. categorize toLowerCase (after_calls toLowerCase calls) (JString text) = Inr r \<and>
           map fst scores = map fst (after_calls toLowerCase calls) \<and>
           i < length scores \<and> fst (scores ! i) = category r \<and>
           (\<forall>j < length scores. snd (scores ! j) \<le> snd (scores ! i)) \<and>
           (\<forall>j < i. snd (scores ! j) < snd (scores ! i))"
proof -
  obtain bc bs where best: "select_best scores = (bc, bs)" by (cases "select_best scores")
  note shape = after_calls_shape [of toLowerCase calls]
  from categorize_nonempty [OF shape assms(1) best [unfolded assms(2)]]
  obtain d where d: "map_of (after_calls toLowerCase calls) bc = Some d"
    and r: "categorize toLowerCase (after_calls toLowerCase calls) (JString text) =
      Inr \<lparr>category = bc, result_icon = JString (icon d), confidence = min (of_nat bs / 15) 1\<rparr>"
    by blast
  have le: "\<forall>e \<in> set scores. snd e \<le> bs" using best by (rule best_is_max)
  with assms(3) have "bs \<noteq> 0" by auto
  with best_in_scores [OF best] obtain i where
    i: "i < length scores" "scores ! i = (bc, bs)" "\<forall>j < i. snd (scores ! j) < bs"
    by blast
  have max: "\<forall>j < length scores. snd (scores ! j) \<le> snd (scores ! i)"
    using le i(2) by simp
  have keys: "map fst scores = map fst (after_calls toLowerCase calls)"
    unfolding assms(2) by (rule scores_keys [OF shape])
  have first: "\<forall>j < i. snd (scores ! j) < snd (scores ! i)" using i by simp
  have cat: "fst (scores ! i) =
      category \<lparr>category = bc, result_icon = JString (icon d), confidence = min (of_nat bs / 15) 1\<rparr>"
    using i(2) by simp
  from r keys i(1) cat max first show ?thesis by blast
qed

text \<open>
  On \<open>"spotkanie"\<close> the categories \<open>praca\<close> and \<open>wydarzenie\<close> both score 2, and
  \<open>praca\<close>, the earlier one, is returned.
\<close>

theorem highest_score_first_wins_witness:
  "categorize lower_latin (after_calls lower_latin []) (JString (str ''spotkanie'')) =
     Inr \<lparr>category = str ''praca'', result_icon = JString [0xD83D, 0xDCBC],
          confidence = 2 / 15\<rparr>
   \<and> map snd (compute_scores lower_latin (after_calls lower_latin []) (trim (lower_latin (str ''spotkanie'')))
                (str ''spotkanie'')) = [0, 0, 0, 2, 0, 2, 0, 0, 0, 0, 0]
   \<and> (\<exists>r i. categorize lower_latin (after_calls lower_latin []) (JString (str ''spotkanie'')) = Inr r \<and>
          i < 11 \<and>
          fst (compute_scores lower_latin (after_calls lower_latin []) (trim (lower_latin (str ''spotkanie'')))
                (str ''spotkanie'') ! i) = category r \<and>
          (\<forall>j < i. snd (compute_scores lower_latin (after_calls lower_latin []) (trim (lower_latin (str ''spotkanie'')))
                         (str ''spotkanie'') ! j)
                  < snd (compute_scores lower_latin (after_calls lower_latin []) (trim (lower_latin (str ''spotkanie'')))
                         (str ''spotkanie'') ! i)))"
proof -
  let ?scores = "compute_scores lower_latin (after_calls lower_latin []) (trim (lower_latin (str ''spotkanie'')))
                   (str ''spotkanie'')"
  have ne: "str ''spotkanie'' \<noteq> []" by (simp add: str_def)
  have pos: "\<exists>e \<in> set ?scores. 0 < snd e" unfolding scores_spotkanie by simp
  have len: "length ?scores = 11" unfolding scores_spotkanie by simp
  have vals: "map snd ?scores = [0, 0, 0, 2, 0, 2, 0, 0, 0, 0, 0]"
    unfolding scores_spotkanie by simp
  from highest_score_first_wins [OF ne refl pos] len
  have "\<exists>r i. categorize lower_latin (after_calls lower_latin []) (JString (str ''spotkanie'')) = Inr r \<and>
          i < 11 \<and> fst (?scores ! i) = category r \<and>
          (\<forall>j < i. snd (?scores ! j) < snd (?scores ! i))"
    by auto
  with result_spotkanie vals show ?thesis by blast
qed

text \<open>
  C3. For an input that is not a non-empty string (the empty string, \<open>null\<close>,
  \<open>undefined\<close>, a boolean, a number, an object), \<open>categorize\<close> returns the category
  \<open>notatka\<close> with the memo icon U+1F4DD and confidence 0, whatever the table holds, and
  raises nothing.
\<close>

theorem guard_returns_fallback:
  assumes "\<forall>s. v = JString s \<longrightarrow> s = []"
  shows "categorize toLowerCase t v =
           Inr \<lparr>category = str ''notatka'', result_icon = JString [0xD83D, 0xDCDD],
                confidence = 0\<rparr>"
  using categorize_guard [OF assms] by (simp add: fallback_result_def)

theorem guard_returns_fallback_witness:
  "categorize lower_latin categories JNull =
     Inr \<lparr>category = str ''notatka'', result_icon = JString [0xD83D, 0xDCDD], confidence = 0\<rparr>
   \<and> categorize lower_latin categories (JString []) =
     Inr \<lparr>category = str ''notatka'', result_icon = JString [0xD83D, 0xDCDD], confidence = 0\<rparr>"
  using guard_returns_fallback [of JNull lower_latin categories]
    guard_returns_fallback [of "JString []" lower_latin categories]
  by simp


text \<open>
  C4, as the code has it. After any calls of \<open>addKeyword\<close> whose keyword is a string,
  a \<open>String\<close> object or a value without a \<open>toLowerCase\<close> method (\<open>undefined\<close>,
  \<open>null\<close>, a boolean, a number, an object without that method), \<open>categorize\<close> raises
  nothing for any value. \<open>getAllCategories\<close> lists every category of the table.
  \<open>extractTags\<close> raises nothing for a string or a \<open>String\<close> object. \<open>addKeyword\<close>
  raises nothing for a string or \<open>String\<close> object as keyword and a category of the
  table, and leaves the table as it is, without an error, for a category that names no
  property of the table object. The calls range over \<open>jsval\<close>, which holds these keywords
  and no others: nothing is stated of a keyword that carries a \<open>toLowerCase\<close> method of
  the caller's, which \<open>addKeyword\<close> calls and whose result it pushes.
\<close>

theorem no_error_on_documented_inputs:
  "(\<exists>r. categorize toLowerCase (after_calls toLowerCase calls) v = Inr r) \<and>
   map fst (getAllCategories t) = map fst t \<and>
   (\<exists>tags. extractTags (JString text) = Inr tags \<and>
           extractTags (JStringObject text) = Inr tags) \<and>
   (c \<in> fst ` set t \<longrightarrow>
      (\<exists>t'. addKeyword toLowerCase t c (JString k) = Inr t' \<and>
            addKeyword toLowerCase t c (JStringObject k) = Inr t')) \<and>
   (c \<notin> fst ` set t \<and> c \<notin> set object_prototype_names \<longrightarrow>
      addKeyword toLowerCase t c kw = Inr t)"
proof (intro conjI impI)
  from category_in_table_lemma [of toLowerCase calls v]
  show "\<exists>r. categorize toLowerCase (after_calls toLowerCase calls) v = Inr r"
    by blast
next
  show "map fst (getAllCategories t) = map fst t"
    by (simp add: getAllCategories_def case_prod_unfold comp_def)
next
  show "\<exists>tags. extractTags (JString text) = Inr tags \<and>
           extractTags (JStringObject text) = Inr tags"
    by simp
next
  assume "c \<in> fst ` set t"
  then obtain d where "map_of t c = Some d"
    by (metis map_of_eq_None_iff not_Some_eq)
  then show "\<exists>t'. addKeyword toLowerCase t c (JString k) = Inr t' \<and>
            addKeyword toLowerCase t c (JStringObject k) = Inr t'"
    by (simp add: addKeyword_def get_property_def)
next
  assume "c \<notin> fst ` set t \<and> c \<notin> set object_prototype_names"
  then have "map_of t c = None" "c \<notin> set object_prototype_names"
    by (simp_all add: map_of_eq_None_iff)
  then show "addKeyword toLowerCase t c kw = Inr t"
    by (simp add: addKeyword_def get_property_def)
qed

theorem no_error_on_documented_inputs_witness:
  "(\<exists>r. categorize lower_latin (after_calls lower_latin example_calls) JUndefined = Inr r) \<and>
   (\<exists>tags. extractTags (JString []) = Inr tags) \<and>
   (\<exists>t'. addKeyword lower_latin categories (str ''zadanie'') (JString (str ''ZROBI'' @ [0x106]))
           = Inr t') \<and>
   addKeyword lower_latin categories (str ''no_such_category'') JNull = Inr categories"
proof -
  have key: "str ''zadanie'' \<in> fst ` set categories"
    by (simp add: categories_def)
  have nokey: "str ''no_such_category'' \<notin> fst ` set categories
               \<and> str ''no_such_category'' \<notin> set object_prototype_names"
    by (simp add: categories_def object_prototype_names_def str_def)
  from no_error_on_documented_inputs
         [of lower_latin example_calls JUndefined categories "[]" "str ''zadanie''"
             "str ''ZROBI'' @ [0x106]" JNull]
       no_error_on_documented_inputs
         [of lower_latin example_calls JUndefined categories "[]" "str ''no_such_category''"
             "[]" JNull]
       key nokey
  show ?thesis by blast
qed

text \<open>
  The claim itself fails: \<open>extractTags(null)\<close> reads \<open>match\<close> from \<open>null\<close>, and
  \<open>addKeyword\<close> calls \<open>toLowerCase\<close> on whatever keyword it is given, \<open>null\<close> too.
\<close>

theorem extractTags_null_throws:
  "extractTags JNull = Inl TypeError"
  by simp

lemma addKeyword_null_keyword_throws:
  "addKeyword toLowerCase categories (str ''zadanie'') JNull = Inl TypeError"
  by (simp add: addKeyword_def get_property_def categories_def)

text \<open>
  C5. \<open>categorize\<close> returns a result for every value, with a confidence between 0 and
  1. For a non-empty string the confidence is \<open>min (bestScore / 15) 1\<close>, where
  \<open>bestScore\<close> is the score of the returned category, which is the best score the
  second loop found. The guard branch scores nothing and returns the confidence 0.
\<close>

theorem confidence_formula:
  "\<exists>r. categorize toLowerCase (after_calls toLowerCase calls) v = Inr r \<and> 0 \<le> confidence r \<and> confidence r \<le> 1 \<and>
     (case v of
        JString text \<Rightarrow>
          if text = [] then confidence r = min (0 / 15) 1
          else \<exists>bestScore.
                 map_of (compute_scores toLowerCase (after_calls toLowerCase calls) (trim (toLowerCase text)) text)
                   (category r) = Some bestScore \<and>
                 snd (select_best
                        (compute_scores toLowerCase (after_calls toLowerCase calls) (trim (toLowerCase text)) text))
                   = bestScore \<and>
                 confidence r = min (of_nat bestScore / 15) 1
      | _ \<Rightarrow> confidence r = min (0 / 15) 1)"
proof (cases "\<forall>s. v = JString s \<longrightarrow> s = []")
  case True
  from categorize_guard [OF this] have "categorize toLowerCase (after_calls toLowerCase calls) v = Inr fallback_result" .
  with True show ?thesis by (cases v) (simp_all add: fallback_result_def)
next
  case False
  then obtain s where v: "v = JString s" "s \<noteq> []" by blast
  let ?t = "after_calls toLowerCase calls"
  let ?scores = "compute_scores toLowerCase ?t (trim (toLowerCase s)) s"
  obtain bc bs where best: "select_best ?scores = (bc, bs)" by (cases "select_best ?scores")
  note shape = after_calls_shape [of toLowerCase calls]
  from categorize_nonempty [OF shape v(2) best]
  obtain d where d: "map_of ?t bc = Some d" and r: "categorize toLowerCase ?t (JString s) =
      Inr \<lparr>category = bc, result_icon = JString (icon d), confidence = min (of_nat bs / 15) 1\<rparr>"
    by blast
  have "map_of ?scores bc = Some bs" using shape best by (rule winner_score)
  moreover have "(0::rat) \<le> min (of_nat bs / 15) 1" by simp
  ultimately show ?thesis using v r best by simp
qed

text \<open>A score of 17 gives the confidence 1, and a score of 2 the confidence 2/15.\<close>

theorem confidence_formula_witness:
  "(\<exists>r. categorize lower_latin (after_calls lower_latin []) (JString (str ''Czy kto co jak?'')) = Inr r \<and>
        category r = str ''pytanie'' \<and>
        map_of (compute_scores lower_latin (after_calls lower_latin []) (trim (lower_latin (str ''Czy kto co jak?'')))
                 (str ''Czy kto co jak?'')) (category r) = Some 17 \<and>
        confidence r = 1)
   \<and> (\<exists>r. categorize lower_latin (after_calls lower_latin []) (JString (str ''spotkanie'')) = Inr r \<and>
        confidence r = 2 / 15 \<and> 0 \<le> confidence r \<and> confidence r \<le> 1)"
proof -
  have "map_of (compute_scores lower_latin (after_calls lower_latin []) (trim (lower_latin (str ''Czy kto co jak?'')))
                 (str ''Czy kto co jak?'')) (str ''pytanie'') = Some 17"
    unfolding scores_czy by (simp add: str_def)
  with confidence_formula [of lower_latin "[]" "JString (str ''Czy kto co jak?'')"] result_czy
  have first: "\<exists>r. categorize lower_latin (after_calls lower_latin []) (JString (str ''Czy kto co jak?'')) = Inr r \<and>
        category r = str ''pytanie'' \<and>
        map_of (compute_scores lower_latin (after_calls lower_latin []) (trim (lower_latin (str ''Czy kto co jak?'')))
                 (str ''Czy kto co jak?'')) (category r) = Some 17 \<and>
        confidence r = 1"
    by simp
  from confidence_formula [of lower_latin "[]" "JString (str ''spotkanie'')"] result_spotkanie
  have "\<exists>r. categorize lower_latin (after_calls lower_latin []) (JString (str ''spotkanie'')) = Inr r \<and>
        confidence r = 2 / 15 \<and> 0 \<le> confidence r \<and> confidence r \<le> 1"
    by simp
  with first show ?thesis by blast
qed

text \<open>
  C6. For a non-empty string on which every category scores 0, \<open>categorize\<close> returns
  \<open>notatka\<close>, the seventh entry of the table and not its first, with the icon of
  \<open>notatka\<close> and confidence 0.
\<close>

theorem no_signal_gives_fallback:
  assumes "text \<noteq> []"
    and "\<forall>e \<in> set (compute_scores toLowerCase (after_calls toLowerCase calls) (trim (toLowerCase text)) text). snd e = 0"
  shows "categorize toLowerCase (after_calls toLowerCase calls) (JString text) =
           Inr \<lparr>category = str ''notatka'', result_icon = JString [0xD83D, 0xDCDD],
                confidence = 0\<rparr>"
proof -
  let ?t = "after_calls toLowerCase calls"
  let ?scores = "compute_scores toLowerCase ?t (trim (toLowerCase text)) text"
  obtain bc bs where best: "select_best ?scores = (bc, bs)" by (cases "select_best ?scores")
  note shape = after_calls_shape [of toLowerCase calls]
  have zero: "bs = 0"
  proof (rule ccontr)
    assume nz: "bs \<noteq> 0"
    with best_in_scores [OF best] obtain i where "i < length ?scores" "?scores ! i = (bc, bs)"
      by blast
    then have "(bc, bs) \<in> set ?scores" by (metis nth_mem)
    with assms(2) nz show False by force
  qed
  with best have bc: "bc = str ''notatka''" by (simp add: best_zero)
  from categorize_nonempty [OF shape assms(1) best]
  obtain d where d: "map_of ?t bc = Some d" and r: "categorize toLowerCase ?t (JString text) =
      Inr \<lparr>category = bc, result_icon = JString (icon d), confidence = min (of_nat bs / 15) 1\<rparr>"
    by blast
  from notatka_lookup [OF shape] d bc have "icon d = [0xD83D, 0xDCDD]" by auto
  with r bc zero show ?thesis by simp
qed

theorem no_signal_gives_fallback_witness:
  "categorize lower_latin (after_calls lower_latin []) (JString (str ''hello world'')) =
     Inr \<lparr>category = str ''notatka'', result_icon = JString [0xD83D, 0xDCDD], confidence = 0\<rparr>
   \<and> fst (hd (after_calls lower_latin [])) = str ''zadanie''"
proof -
  have ne: "str ''hello world'' \<noteq> []" by (simp add: str_def)
  have zero: "\<forall>e \<in> set (compute_scores lower_latin (after_calls lower_latin []) (trim (lower_latin (str ''hello world'')))
                           (str ''hello world'')). snd e = 0"
    unfolding scores_hello_world by simp
  have "fst (hd (after_calls lower_latin [])) = str ''zadanie''"
    by (simp add: after_calls_def categories_def)
  with no_signal_gives_fallback [OF ne zero] show ?thesis by simp
qed

text \<open>
  C7. For every value and after any calls of \<open>addKeyword\<close>, the category that
  \<open>categorize\<close> returns is a key of the table, and the icon it returns is the icon of
  that entry.
\<close>

theorem category_in_table:
  "\<exists>r d. categorize toLowerCase (after_calls toLowerCase calls) v = Inr r \<and>
     map_of (after_calls toLowerCase calls) (category r) = Some d \<and> result_icon r = JString (icon d)"
  by (rule category_in_table_lemma)

text \<open>After the four example calls, \<open>hello\<close> is a keyword of \<open>zadanie\<close>.\<close>

theorem category_in_table_witness:
  "\<exists>r d. categorize lower_latin (after_calls lower_latin example_calls) (JString (str ''hello world'')) = Inr r \<and>
     map_of (after_calls lower_latin example_calls) (category r) = Some d \<and>
     result_icon r = JString (icon d) \<and>
     category r = str ''zadanie'' \<and> icon d = [0x2705]"
  using category_in_table [of lower_latin example_calls "JString (str ''hello world'')"]
    result_example_calls
  by auto

text \<open>
  C8. The claim holds for a category of the table (lemma \<open>addKeyword_appends\<close>) and
  fails for one that is not: \<open>constructor\<close> is no key of the table, yet
  \<open>this.categories['constructor']\<close> is the function \<open>Object\<close>, inherited from
  \<open>Object.prototype\<close>. The guard lets it through, its \<open>keywords\<close> is
  \<open>undefined\<close>, and \<open>addKeyword\<close> throws a \<open>TypeError\<close>.
\<close>

theorem addKeyword_inherited_name_throws:
  "map_of categories (str ''constructor'') = None \<and>
   addKeyword toLowerCase categories (str ''constructor'') (JString (str ''x'')) = Inl TypeError"
  by (simp add: addKeyword_def get_property_def object_prototype_names_def categories_def str_def)

text \<open>
  C9. For every string, \<open>extractTags\<close> returns without duplicates the strings behind
  the marker of the \<open>#\<close> tokens and of the \<open>@\<close> tokens of the text, and nothing
  when the text has no token. On \<open>"check #work @boss now"\<close> these are \<open>work\<close> and
  \<open>boss\<close>. A token is a marker, then word characters, as many as follow it in the
  text; \<open>hashtags\<close> and \<open>mentions\<close> find the tokens by a scan, \<open>extractTags\<close>
  with \<open>/#\w+/g\<close> and \<open>/@\w+/g\<close>.
\<close>

theorem tags_are_the_tokens:
  "(\<exists>tags. extractTags (JString text) = Inr tags \<and> distinct tags \<and>
      set tags = set (hashtags text) \<union> set (mentions text) \<and>
      (\<forall>tag. tag \<in> set tags \<longleftrightarrow>
         (\<exists>marker. (marker = ascii CHR ''#'' \<or> marker = ascii CHR ''@'') \<and>
            (\<exists>pre post. text = pre @ marker # tag @ post \<and> tag \<noteq> [] \<and>
               (\<forall>x \<in> set tag. is_word_char x) \<and>
               (post = [] \<or> \<not> is_word_char (hd post))))) \<and>
      (hashtags text = [] \<and> mentions text = [] \<longrightarrow> tags = []))
   \<and> (\<exists>tags. extractTags (JString (str ''check #work @boss now'')) = Inr tags \<and>
         set tags = {str ''work'', str ''boss''})"
proof
  let ?tags = "new_Set (hashtags text @ mentions text)"
  define occurs where "occurs = (\<lambda>marker tag.
     \<exists>pre post. text = pre @ marker # tag @ post \<and> tag \<noteq> [] \<and>
       (\<forall>x \<in> set tag. is_word_char x) \<and> (post = [] \<or> \<not> is_word_char (hd post)))"
  have res: "extractTags (JString text) = Inr ?tags" by (rule extractTags_tokens)
  have dist: "distinct ?tags"
    by (simp add: new_Set_first_occurrences distinct_first_occurrences)
  have sets: "set ?tags = set (hashtags text) \<union> set (mentions text)"
    by (simp add: new_Set_first_occurrences set_first_occurrences)
  have h: "tag \<in> set (hashtags text) \<longleftrightarrow> occurs (ascii CHR ''#'') tag" for tag
    unfolding hashtags_def occurs_def by (rule stripped_tokens_iff [OF markers_not_word(1)])
  have m: "tag \<in> set (mentions text) \<longleftrightarrow> occurs (ascii CHR ''@'') tag" for tag
    unfolding mentions_def occurs_def by (rule stripped_tokens_iff [OF markers_not_word(2)])
  have "tag \<in> set ?tags \<longleftrightarrow>
          (\<exists>marker. (marker = ascii CHR ''#'' \<or> marker = ascii CHR ''@'') \<and> occurs marker tag)"
    for tag
  proof -
    have "tag \<in> set ?tags \<longleftrightarrow> occurs (ascii CHR ''#'') tag \<or> occurs (ascii CHR ''@'') tag"
      unfolding sets Un_iff h m ..
    then show ?thesis by blast
  qed
  then have occ: "\<forall>tag. tag \<in> set ?tags \<longleftrightarrow>
         (\<exists>marker. (marker = ascii CHR ''#'' \<or> marker = ascii CHR ''@'') \<and>
            (\<exists>pre post. text = pre @ marker # tag @ post \<and> tag \<noteq> [] \<and>
               (\<forall>x \<in> set tag. is_word_char x) \<and>
               (post = [] \<or> \<not> is_word_char (hd post))))"
    unfolding occurs_def by (rule allI)
  have none: "hashtags text = [] \<and> mentions text = [] \<longrightarrow> ?tags = []"
    by (simp add: new_Set_first_occurrences)
  show "\<exists>tags. extractTags (JString text) = Inr tags \<and> distinct tags \<and>
      set tags = set (hashtags text) \<union> set (mentions text) \<and>
      (\<forall>tag. tag \<in> set tags \<longleftrightarrow>
         (\<exists>marker. (marker = ascii CHR ''#'' \<or> marker = ascii CHR ''@'') \<and>
            (\<exists>pre post. text = pre @ marker # tag @ post \<and> tag \<noteq> [] \<and>
               (\<forall>x \<in> set tag. is_word_char x) \<and>
               (post = [] \<or> \<not> is_word_char (hd post))))) \<and>
      (hashtags text = [] \<and> mentions text = [] \<longrightarrow> tags = [])"
    by (rule exI [of _ ?tags]) (intro conjI res dist sets occ none)
next
  have "hashtags (str ''check #work @boss now'') = [str ''work'']"
    by (simp add: hashtags_def strip_marker_def is_word_char_def is_digit_def str_def)
  moreover have "mentions (str ''check #work @boss now'') = [str ''boss'']"
    by (simp add: mentions_def strip_marker_def is_word_char_def is_digit_def str_def)
  ultimately show "\<exists>tags. extractTags (JString (str ''check #work @boss now'')) = Inr tags \<and>
         set tags = {str ''work'', str ''boss''}"
    unfolding extractTags_tokens
    by (simp add: new_Set_first_occurrences set_first_occurrences)
qed

theorem tags_are_the_tokens_witness:
  "extractTags (JString (str ''no tags: a#, @ b'')) = Inr []"
proof -
  have "hashtags (str ''no tags: a#, @ b'') = []"
    by (simp add: hashtags_def strip_marker_def is_word_char_def is_digit_def str_def)
  moreover have "mentions (str ''no tags: a#, @ b'') = []"
    by (simp add: mentions_def strip_marker_def is_word_char_def is_digit_def str_def)
  ultimately show ?thesis
    using tags_are_the_tokens [of "str ''no tags: a#, @ b''"] by auto
qed

text \<open>
  C10. The order of the tags: the hashtags in the order of their first occurrence in the
  text, then the mentions in the order of their first occurrence, those left out whose
  string is a hashtag already.
\<close>

theorem tags_order:
  "extractTags (JString text) =
     Inr (first_occurrences (hashtags text)
          @ filter (\<lambda>tag. tag \<notin> set (hashtags text)) (first_occurrences (mentions text)))"
  unfolding extractTags_tokens by (simp add: new_Set_append)

theorem tags_order_witness:
  "extractTags (JString (str ''@b #a @b #c @a #a @d'')) =
     Inr [str ''a'', str ''c'', str ''b'', str ''d'']"
proof -
  have "hashtags (str ''@b #a @b #c @a #a @d'') = [str ''a'', str ''c'', str ''a'']"
    by (simp add: hashtags_def strip_marker_def is_word_char_def is_digit_def str_def)
  moreover have "mentions (str ''@b #a @b #c @a #a @d'') =
                   [str ''b'', str ''b'', str ''a'', str ''d'']"
    by (simp add: mentions_def strip_marker_def is_word_char_def is_digit_def str_def)
  ultimately show ?thesis
    using tags_order [of "str ''@b #a @b #c @a #a @d''"] by (simp add: str_def)
qed

end
